theory Spec2Isabelle
  imports
    Main
    "HOL-Library.Word"
    "HOL-Library.Char_ord"
    "HOL-Library.List_Lexorder"
    "HOL-Library.Product_Lexorder"
begin

section \<open>The IR the transform works on\<close>

text \<open>
  The stack-stamping transform (\<^verbatim>\<open>ss.cpp\<close>, \<^verbatim>\<open>ss.hpp\<close>) mutates an IR of functions,
  instructions, relocations and unwind (EH) programs that it reaches through pointers.
  Pointers are handles (natural numbers) into explicit stores; a \<^verbatim>\<open>std::set\<close> of
  pointers is the list of its elements in iteration order.  Allocation takes the next
  unused handle from a counter, as \<^verbatim>\<open>new\<close> returns an address no live object has.
\<close>

type_synonym insn_id = nat
type_synonym func_id = nat
type_synonym reloc_id = nat
type_synonym ehpgm_id = nat

text \<open>A run stops without returning at a failed \<^verbatim>\<open>assert\<close>.\<close>

datatype abort = AssertionFailed

text \<open>
  A value of type \<^verbatim>\<open>Relocation_t*\<close>: null, a relocation, or a non-null word that is no
  relocation (what a read through an end iterator can yield, see \<open>findRelocation\<close>).
\<close>

datatype reloc_ptr = Null | Reloc reloc_id | NodeCount nat

record icfs_t =
  ib_targets :: "insn_id list"
  isComplete :: bool

text \<open>
  An \<^verbatim>\<open>Instruction_t\<close>.  The three flags are what \<^verbatim>\<open>DecodedInstruction_t::factory\<close>
  answers for the instruction's bytes.
\<close>

record instruction =
  isReturn :: bool
  isCall :: bool
  isUnconditionalBranch :: bool
  getTarget :: "insn_id option"
  getFallthrough :: "insn_id option"
  getIBTargets :: "icfs_t option"
  getRelocations :: "reloc_id list"
  getFunction :: "func_id option"
  getEhProgram :: "ehpgm_id option"
  getDisassembly :: string

record func =
  getName :: string
  getEntryPoint :: "insn_id option"
  getInstructions :: "insn_id list"

text \<open>
  The seven fields of an unwind program, with the types \<^verbatim>\<open>EhProgramPlaceHolder_t\<close>
  gives them.  A placeholder is built from a stored program by copying the seven
  fields, so stored programs and placeholders are values of the same record type.
\<close>

record eh_program =
  caf :: "8 word"
  daf :: "8 word"
  rr :: "8 word"
  ptrsize :: "8 word"
  cie_program :: "8 word list list"
  fde_program :: "8 word list list"
  relocs :: "reloc_id list"

record file_ir =
  getArchitectureBitWidth :: nat
  insn_at :: "insn_id \<Rightarrow> instruction"
  func_at :: "func_id \<Rightarrow> func"
  reloc_type_at :: "reloc_id \<Rightarrow> string"
  ehpgm_at :: "ehpgm_id \<Rightarrow> eh_program"
  all_instructions :: "insn_id list"
  all_functions :: "func_id list"
  getAllEhPrograms :: "ehpgm_id set"
  next_insn :: insn_id
  next_ehpgm :: ehpgm_id
  insertions :: "(insn_id \<times> string) list"

text \<open>
  \<^const>\<open>insertions\<close> is the history of the IR's insert-before operations (handle and
  assembly text, oldest first); it lets a theorem count the stamps an instruction
  received.
\<close>

text \<open>The \<^verbatim>\<open>StackStamp_t\<close> object: the IR it transforms, its options, cache and counters.\<close>

record StackStamp_t =
  getFileIR :: file_ir
  m_stamp_value :: "32 word"
  m_verbose :: bool
  all_eh_pgms :: "(eh_program \<times> ehpgm_id) list"
  m_instructions_added :: int
  m_functions_transformed :: int
  m_functions_not_transformed :: int

section \<open>Finding a relocation by type\<close>

text \<open>
  \<^verbatim>\<open>findRelocation\<close> (ss.cpp, lines 48-56): \<^verbatim>\<open>find_if\<close> over the relocation set, then
  \<^verbatim>\<open>return (find_it==end(relocs)) ? *find_it : NULL;\<close>.  When a relocation matches,
  the second branch returns \<^verbatim>\<open>NULL\<close>.  When nothing matches, \<^verbatim>\<open>find_it\<close> is the end
  iterator and the first branch evaluates \<^verbatim>\<open>*find_it\<close> on it.  That is undefined
  behaviour, and a checked build stops there; the program as built with the GNU C++
  library reads the word behind the set's header node, which is the set's element
  count: \<^verbatim>\<open>NULL\<close> for an empty set, a non-null value that is no relocation otherwise.
  The result records both: whether the end iterator was dereferenced, and the value
  the caller goes on with.
\<close>

datatype lookup = Returned reloc_ptr | InvalidIteratorDeref reloc_ptr

definition read_through_end :: "reloc_id list \<Rightarrow> reloc_ptr" where
  "read_through_end rs = (if rs = [] then Null else NodeCount (length rs))"

definition findRelocation :: "file_ir \<Rightarrow> insn_id \<Rightarrow> string \<Rightarrow> lookup" where
  "findRelocation ir i type =
     (let rs = getRelocations (insn_at ir i) in
      case find (\<lambda>reloc. reloc_type_at ir reloc = type) rs of
        None \<Rightarrow> InvalidIteratorDeref (read_through_end rs)
      | Some find_it \<Rightarrow> Returned Null)"

fun returned :: "lookup \<Rightarrow> reloc_ptr" where
  "returned (Returned p) = p"
| "returned (InvalidIteratorDeref p) = p"

definition fix_call_fallthrough_string :: string where
  "fix_call_fallthrough_string = ''fix_call_fallthrough''"

section \<open>Eligibility: \<^verbatim>\<open>can_stamp\<close>\<close>

definition might_leave :: "file_ir \<Rightarrow> func_id \<Rightarrow> icfs_t \<Rightarrow> bool" where
  "might_leave ir f icfs =
     (find (\<lambda>target. getFunction (insn_at ir target) \<noteq> Some f) (ib_targets icfs) \<noteq> None)"

definition might_stay :: "file_ir \<Rightarrow> func_id \<Rightarrow> icfs_t \<Rightarrow> bool" where
  "might_stay ir f icfs =
     (find (\<lambda>target. getFunction (insn_at ir target) = Some f) (ib_targets icfs) \<noteq> None)"

definition exits_function :: "file_ir \<Rightarrow> func_id \<Rightarrow> insn_id option \<Rightarrow> bool" where
  "exits_function ir f target =
     (case target of None \<Rightarrow> False | Some t \<Rightarrow> getFunction (insn_at ir t) \<noteq> Some f)"

text \<open>
  The body of the loop of \<^verbatim>\<open>can_stamp\<close> (lines 93-183) for one instruction:
  \<open>Inr True\<close> goes on to the next instruction, \<open>Inr False\<close> is \<^verbatim>\<open>return false\<close>.
\<close>

definition can_stamp_insn :: "file_ir \<Rightarrow> func_id \<Rightarrow> insn_id \<Rightarrow> abort + bool" where
  "can_stamp_insn ir f i =
     (let insn = insn_at ir i;
          reloc = returned (findRelocation ir i fix_call_fallthrough_string)
      in  if isReturn insn then Inr True
          else if isCall insn \<or> reloc \<noteq> Null then Inr True
          else if exits_function ir f (getTarget insn) then
            (if getFallthrough insn \<noteq> None then Inr False else Inr True)
          else
            (case (isUnconditionalBranch insn, getIBTargets insn) of
               (True, Some icfs) \<Rightarrow>
                 if getFallthrough insn \<noteq> None then Inl AssertionFailed
                 else if ib_targets icfs = [] then Inl AssertionFailed
                 else
                   (let definitely_stays = \<not> might_leave ir f icfs;
                        definitely_leaves = \<not> might_stay ir f icfs
                    in if definitely_leaves \<or> definitely_stays then Inr True
                       else if might_leave ir f icfs \<or> might_stay ir f icfs then Inr False
                       else Inl AssertionFailed)
             | _ \<Rightarrow> Inr True))"

fun can_stamp_loop :: "file_ir \<Rightarrow> func_id \<Rightarrow> insn_id list \<Rightarrow> abort + bool" where
  "can_stamp_loop ir f [] = Inr True"
| "can_stamp_loop ir f (i # rest) =
     (case can_stamp_insn ir f i of
        Inl e \<Rightarrow> Inl e
      | Inr ok \<Rightarrow> if ok then can_stamp_loop ir f rest else Inr False)"

definition can_stamp :: "file_ir \<Rightarrow> func_id \<Rightarrow> abort + bool" where
  "can_stamp ir f =
     (if getEntryPoint (func_at ir f) = None then Inr False
      else if getName (func_at ir f) = ''_start'' then Inr False
      else if length (getInstructions (func_at ir f)) \<le> 3 then Inr False
      else can_stamp_loop ir f (getInstructions (func_at ir f)))"

section \<open>Inserting a stamp: \<^verbatim>\<open>stamp(Function_t*, Instruction_t*)\<close>\<close>

text \<open>
  Modelled from the spec: \<^verbatim>\<open>insertAssemblyBefore\<close> belongs to the host IR library and
  is not part of the sources.  The comment at the call (ss.cpp, lines 201-212) and the
  spec's insert-before contract describe it: the old instruction is copied to a new
  \<^verbatim>\<open>Instruction_t\<close>, which joins the function's and the file's instruction sets and is
  returned; the old \<^verbatim>\<open>Instruction_t\<close> is overwritten with the new assembly and falls
  through to the copy.  The only assembly inserted here is the \<^verbatim>\<open>xor\<close> stamp, which
  decodes as neither return nor call nor branch and has no branch target, no
  indirect-branch targets and no relocations; it stays in the function, and keeps the
  unwind program, of the instruction it precedes.
\<close>

definition insertAssemblyBefore :: "file_ir \<Rightarrow> insn_id \<Rightarrow> string \<Rightarrow> insn_id \<times> file_ir" where
  "insertAssemblyBefore ir i assembly =
     (let copy = next_insn ir;
          old = insn_at ir i;
          new_insn = \<lparr> isReturn = False, isCall = False, isUnconditionalBranch = False,
                     getTarget = None, getFallthrough = Some copy, getIBTargets = None,
                     getRelocations = [], getFunction = getFunction old,
                     getEhProgram = getEhProgram old, getDisassembly = assembly \<rparr>
      in (copy,
          ir \<lparr> insn_at := (insn_at ir)(copy := old, i := new_insn),
               func_at :=
                 (case getFunction old of
                    None \<Rightarrow> func_at ir
                  | Some g \<Rightarrow> (func_at ir)
                      (g := (func_at ir g)
                         \<lparr> getInstructions := getInstructions (func_at ir g) @ [copy] \<rparr>)),
               all_instructions := all_instructions ir @ [copy],
               next_insn := Suc copy,
               insertions := insertions ir @ [(i, assembly)] \<rparr>))"

text \<open>\<^verbatim>\<open>stream << hex << v\<close> for an unsigned value: lower-case digits, no padding.\<close>

definition hex_digit :: "nat \<Rightarrow> char" where
  "hex_digit d = ''0123456789abcdef'' ! d"

fun hex :: "nat \<Rightarrow> string" where
  "hex n = (if n < 16 then [hex_digit n] else hex (n div 16) @ [hex_digit (n mod 16)])"

declare hex.simps [simp del]

definition get_stamp :: "StackStamp_t \<Rightarrow> func_id \<Rightarrow> 32 word" where
  "get_stamp st f = m_stamp_value st"

text \<open>The text built in the \<^verbatim>\<open>stringstream\<close> of \<^verbatim>\<open>stamp\<close> (lines 196-199).\<close>

definition stamp_assembly :: "nat \<Rightarrow> 32 word \<Rightarrow> string" where
  "stamp_assembly bits sv =
     (let spreg = (if bits = 64 then ''rsp'' else ''esp'')
      in '' xor dword ['' @ spreg @ ''], 0x'' @ hex (unat sv))"

text \<open>
  \<^verbatim>\<open>stamp(Function_t*, Instruction_t*)\<close> (lines 192-226); what it logs when
  \<^verbatim>\<open>m_verbose\<close> is set is not part of the state.
\<close>

definition stamp_instruction :: "StackStamp_t \<Rightarrow> func_id \<Rightarrow> insn_id \<Rightarrow> StackStamp_t" where
  "stamp_instruction st f i =
     (let assembly = stamp_assembly (getArchitectureBitWidth (getFileIR st)) (get_stamp st f)
      in st \<lparr> getFileIR := snd (insertAssemblyBefore (getFileIR st) i assembly),
              m_instructions_added := m_instructions_added st + 1 \<rparr>)"

section \<open>Updating the unwind programs: \<^verbatim>\<open>eh_update\<close>\<close>

text \<open>
  \<^verbatim>\<open>operator<\<close> on placeholders (lines 568-572) compares the \<^verbatim>\<open>std::tie\<close> of the seven
  fields lexicographically: \<^verbatim>\<open>uint8_t\<close> fields unsigned, \<^verbatim>\<open>int8_t\<close> fields signed,
  strings and vectors of strings lexicographically by unsigned bytes, relocation sets
  lexicographically by pointer value.
\<close>

definition placeholder_key ::
  "eh_program \<Rightarrow> nat \<times> int \<times> int \<times> nat \<times> 8 word list list \<times> 8 word list list \<times> reloc_id list" where
  "placeholder_key a =
     (unat (caf a), sint (daf a), sint (rr a), unat (ptrsize a),
      cie_program a, fde_program a, relocs a)"

definition placeholder_less :: "eh_program \<Rightarrow> eh_program \<Rightarrow> bool" where
  "placeholder_less a b = (placeholder_key a < placeholder_key b)"

text \<open>
  The cache \<^verbatim>\<open>std::map<EhProgramPlaceHolder_t, EhProgram_t*>\<close> as an association list.
  \<^verbatim>\<open>find\<close> returns the entry whose key is equivalent to the one sought (neither is less
  than the other); \<^verbatim>\<open>m[k] = v\<close> assigns to that entry or adds one.
\<close>

definition placeholder_equiv :: "eh_program \<Rightarrow> eh_program \<Rightarrow> bool" where
  "placeholder_equiv a b = (\<not> placeholder_less a b \<and> \<not> placeholder_less b a)"

fun map_find :: "(eh_program \<times> ehpgm_id) list \<Rightarrow> eh_program \<Rightarrow> ehpgm_id option" where
  "map_find [] k = None"
| "map_find ((k', v) # m) k = (if placeholder_equiv k' k then Some v else map_find m k)"

fun map_assign ::
  "(eh_program \<times> ehpgm_id) list \<Rightarrow> eh_program \<Rightarrow> ehpgm_id \<Rightarrow> (eh_program \<times> ehpgm_id) list" where
  "map_assign [] k v = [(k, v)]"
| "map_assign ((k', v') # m) k v =
     (if placeholder_equiv k' k then (k', v) # m else (k', v') # map_assign m k v)"

text \<open>
  Modelled from the spec: \<^verbatim>\<open>FileIR_t::addEhProgram\<close>, \<^verbatim>\<open>EhProgram_t::setRelocations\<close> and
  \<^verbatim>\<open>Instruction_t::setEhProgram\<close> belong to the host IR library.  \<^verbatim>\<open>addEhProgram\<close>
  constructs a new stored program from the six values given, enters it in the
  program-wide registry, points the instruction at it and returns its handle.
\<close>

definition addEhProgram ::
  "file_ir \<Rightarrow> insn_id \<Rightarrow> 8 word \<Rightarrow> 8 word \<Rightarrow> 8 word \<Rightarrow> 8 word \<Rightarrow> 8 word list list \<Rightarrow> 8 word list list
     \<Rightarrow> ehpgm_id \<times> file_ir" where
  "addEhProgram ir i c d r p cie fde =
     (let tmp_pgm = next_ehpgm ir
      in (tmp_pgm,
          ir \<lparr> ehpgm_at := (ehpgm_at ir)
                 (tmp_pgm := \<lparr> caf = c, daf = d, rr = r, ptrsize = p,
                               cie_program = cie, fde_program = fde, relocs = [] \<rparr>),
               insn_at := (insn_at ir)(i := (insn_at ir i) \<lparr> getEhProgram := Some tmp_pgm \<rparr>),
               getAllEhPrograms := insert tmp_pgm (getAllEhPrograms ir),
               next_ehpgm := Suc tmp_pgm \<rparr>))"

definition setRelocations :: "file_ir \<Rightarrow> ehpgm_id \<Rightarrow> reloc_id list \<Rightarrow> file_ir" where
  "setRelocations ir p rs = ir \<lparr> ehpgm_at := (ehpgm_at ir)(p := (ehpgm_at ir p) \<lparr> relocs := rs \<rparr>) \<rparr>"

definition setEhProgram :: "file_ir \<Rightarrow> insn_id \<Rightarrow> ehpgm_id \<Rightarrow> file_ir" where
  "setEhProgram ir i p =
     ir \<lparr> insn_at := (insn_at ir)(i := (insn_at ir i) \<lparr> getEhProgram := Some p \<rparr>) \<rparr>"

text \<open>
  The unwind instruction built at lines 252-282.  The stamp is widened to 64 bits and
  its first \<open>byte_width\<close> bytes are taken in the host's byte order, here little-endian
  (the transform runs on x86).
\<close>

definition dwarf_instruction_prefix :: "nat \<Rightarrow> 8 word list" where
  "dwarf_instruction_prefix bits =
     (if bits = 64 then [0x16, 0x10, 0x0D, 0x38, 0x1c, 0x06]
      else [0x16, 0x08, 0x09, 0x34, 0x1c, 0x06])"

definition dwarf_instruction_stamp_value :: "nat \<Rightarrow> 32 word \<Rightarrow> 8 word list" where
  "dwarf_instruction_stamp_value byte_width sv =
     map (\<lambda>k. ucast (drop_bit (8 * k) (ucast sv :: 64 word))) [0..<byte_width]"

definition dwarf_instruction :: "nat \<Rightarrow> 32 word \<Rightarrow> 8 word list" where
  "dwarf_instruction bits sv =
     dwarf_instruction_prefix bits
       @ ([0x03] @ dwarf_instruction_stamp_value (bits div 8) sv)
       @ [0x27]"

text \<open>The placeholder \<^verbatim>\<open>nep\<close> of an instruction: its program with the new leading FDE instruction.\<close>

definition derived_program :: "8 word list \<Rightarrow> eh_program \<Rightarrow> eh_program" where
  "derived_program dw eh_pgm = eh_pgm \<lparr> fde_program := dw # fde_program eh_pgm \<rparr>"

text \<open>
  The body of the loop of \<^verbatim>\<open>eh_update\<close> (lines 297-337) for one instruction, and the
  loop over the function's instructions.
\<close>

definition eh_update_insn :: "8 word list \<Rightarrow> StackStamp_t \<Rightarrow> insn_id \<Rightarrow> StackStamp_t" where
  "eh_update_insn dw st i =
     (case getEhProgram (insn_at (getFileIR st) i) of
        None \<Rightarrow> st
      | Some eh_pgm \<Rightarrow>
          (let nep = derived_program dw (ehpgm_at (getFileIR st) eh_pgm)
           in case map_find (all_eh_pgms st) nep of
                None \<Rightarrow>
                  (let (tmp_pgm, ir1) =
                         addEhProgram (getFileIR st) i (caf nep) (daf nep) (rr nep) (ptrsize nep)
                           (cie_program nep) (fde_program nep);
                       ir2 = setRelocations ir1 tmp_pgm (relocs nep)
                   in st \<lparr> getFileIR := ir2,
                           all_eh_pgms := map_assign (all_eh_pgms st) nep tmp_pgm \<rparr>)
              | Some reuse \<Rightarrow> st \<lparr> getFileIR := setEhProgram (getFileIR st) i reuse \<rparr>))"

fun eh_update_loop :: "8 word list \<Rightarrow> StackStamp_t \<Rightarrow> insn_id list \<Rightarrow> StackStamp_t" where
  "eh_update_loop dw st [] = st"
| "eh_update_loop dw st (i # rest) = eh_update_loop dw (eh_update_insn dw st i) rest"

definition eh_update :: "StackStamp_t \<Rightarrow> func_id \<Rightarrow> abort + StackStamp_t" where
  "eh_update st f =
     (let bits = getArchitectureBitWidth (getFileIR st);
          byte_width = bits div 8
      in if \<not> (byte_width = 4 \<or> byte_width = 8) then Inl AssertionFailed
         else if \<not> byte_width \<le> 8 then Inl AssertionFailed
         else Inr (eh_update_loop (dwarf_instruction bits (get_stamp st f)) st
                     (getInstructions (func_at (getFileIR st) f))))"

text \<open>
  \<^verbatim>\<open>eh_update\<close> run over a list of functions, one after the other.  (\<^verbatim>\<open>execute\<close> reaches
  \<^verbatim>\<open>eh_update\<close> through \<^verbatim>\<open>stamp\<close>, once for every function it transforms.)
\<close>

fun eh_update_functions :: "StackStamp_t \<Rightarrow> func_id list \<Rightarrow> abort + StackStamp_t" where
  "eh_update_functions st [] = Inr st"
| "eh_update_functions st (f # fs) =
     (case eh_update st f of
        Inl e \<Rightarrow> Inl e
      | Inr st' \<Rightarrow> eh_update_functions st' fs)"

section \<open>Dropping unused unwind programs: \<^verbatim>\<open>cleanup_eh_pgms\<close>\<close>

fun collect_eh_pgms :: "file_ir \<Rightarrow> insn_id list \<Rightarrow> ehpgm_id set \<Rightarrow> ehpgm_id set" where
  "collect_eh_pgms ir [] new_eh_pgms = new_eh_pgms"
| "collect_eh_pgms ir (i # rest) new_eh_pgms =
     (case getEhProgram (insn_at ir i) of
        None \<Rightarrow> collect_eh_pgms ir rest new_eh_pgms
      | Some eh_pgm \<Rightarrow> collect_eh_pgms ir rest (insert eh_pgm new_eh_pgms))"

definition cleanup_eh_pgms :: "StackStamp_t \<Rightarrow> StackStamp_t" where
  "cleanup_eh_pgms st =
     st \<lparr> getFileIR := (getFileIR st)
            \<lparr> getAllEhPrograms :=
                collect_eh_pgms (getFileIR st) (all_instructions (getFileIR st)) {} \<rparr> \<rparr>"

section \<open>Stamping a function: \<^verbatim>\<open>stamp(Function_t*)\<close>\<close>

text \<open>
  The decision the first loop of \<^verbatim>\<open>stamp\<close> (lines 399-473) takes for one instruction:
  \<open>Inr True\<close> when it calls \<^verbatim>\<open>stamp(f,insn)\<close>, \<open>Inr False\<close> when it does nothing.
\<close>

definition stamps_insn :: "file_ir \<Rightarrow> func_id \<Rightarrow> insn_id \<Rightarrow> abort + bool" where
  "stamps_insn ir f i =
     (let insn = insn_at ir i;
          reloc = returned (findRelocation ir i fix_call_fallthrough_string)
      in  if isReturn insn then Inr True
          else if isCall insn \<or> reloc \<noteq> Null then Inr False
          else if exits_function ir f (getTarget insn) then
            (if getFallthrough insn \<noteq> None then Inl AssertionFailed else Inr True)
          else
            (case (isUnconditionalBranch insn, getIBTargets insn) of
               (True, Some icfs) \<Rightarrow>
                 if getFallthrough insn \<noteq> None then Inl AssertionFailed
                 else if ib_targets icfs = [] then Inl AssertionFailed
                 else
                   (let definitely_leaves = \<not> might_stay ir f icfs
                    in if Some i = getEntryPoint (func_at ir f) then Inr True
                       else if definitely_leaves \<or> (might_leave ir f icfs \<and> \<not> isComplete icfs)
                         then Inr True
                       else Inr False)
             | _ \<Rightarrow> Inr False))"

fun stamp_loop :: "StackStamp_t \<Rightarrow> func_id \<Rightarrow> insn_id list \<Rightarrow> abort + StackStamp_t" where
  "stamp_loop st f [] = Inr st"
| "stamp_loop st f (i # rest) =
     (case stamps_insn (getFileIR st) f i of
        Inl e \<Rightarrow> Inl e
      | Inr yes \<Rightarrow> stamp_loop (if yes then stamp_instruction st f i else st) f rest)"

text \<open>
  The second loop of \<^verbatim>\<open>stamp\<close> (lines 483-495).  The entry point is not null here:
  \<^verbatim>\<open>stamp(f,f->getEntryPoint())\<close> has asserted it.
\<close>

definition setTarget :: "file_ir \<Rightarrow> insn_id \<Rightarrow> insn_id option \<Rightarrow> file_ir" where
  "setTarget ir i t = ir \<lparr> insn_at := (insn_at ir)(i := (insn_at ir i) \<lparr> getTarget := t \<rparr>) \<rparr>"

fun skip_stamp_loop :: "file_ir \<Rightarrow> func_id \<Rightarrow> insn_id list \<Rightarrow> file_ir" where
  "skip_stamp_loop ir f [] = ir"
| "skip_stamp_loop ir f (i # rest) =
     (case getEntryPoint (func_at ir f) of
        None \<Rightarrow> skip_stamp_loop ir f rest
      | Some entry \<Rightarrow>
          if getTarget (insn_at ir i) = Some entry \<and> \<not> isCall (insn_at ir i)
          then skip_stamp_loop (setTarget ir i (getFallthrough (insn_at ir entry))) f rest
          else skip_stamp_loop ir f rest)"

definition stamp_function :: "StackStamp_t \<Rightarrow> func_id \<Rightarrow> abort + StackStamp_t" where
  "stamp_function st f =
     (case can_stamp (getFileIR st) f of
        Inl e \<Rightarrow> Inl e
      | Inr False \<Rightarrow>
          Inr (st \<lparr> m_functions_not_transformed := m_functions_not_transformed st + 1 \<rparr>)
      | Inr True \<Rightarrow>
          (case getEntryPoint (func_at (getFileIR st) f) of
             None \<Rightarrow> Inl AssertionFailed
           | Some entry \<Rightarrow>
               (let old_f_insns = getInstructions (func_at (getFileIR st) f)
                in case stamp_loop (st \<lparr> m_functions_transformed := m_functions_transformed st + 1 \<rparr>)
                          f old_f_insns of
                     Inl e \<Rightarrow> Inl e
                   | Inr st1 \<Rightarrow>
                       (case getEntryPoint (func_at (getFileIR st1) f) of
                          None \<Rightarrow> Inl AssertionFailed
                        | Some entry1 \<Rightarrow>
                            (let st2 = stamp_instruction st1 f entry1;
                                 st3 = st2 \<lparr> getFileIR :=
                                              skip_stamp_loop (getFileIR st2) f old_f_insns \<rparr>
                             in eh_update st3 f)))))"

section \<open>The whole pass: \<^verbatim>\<open>execute\<close>\<close>

text \<open>
  \<^verbatim>\<open>atoi\<close> as the GNU C library computes it: \<^verbatim>\<open>strtol\<close> in base 10 (leading white
  space, an optional sign, then decimal digits up to the first other character, the
  value kept within the range of a 64-bit \<^verbatim>\<open>long\<close>), cut to a 32-bit \<^verbatim>\<open>int\<close>.
\<close>

definition isspace :: "char \<Rightarrow> bool" where
  "isspace c = (c \<in> set [CHR '' '', CHR 0x09, CHR 0x0A, CHR 0x0B, CHR 0x0C, CHR 0x0D])"

definition isdigit :: "char \<Rightarrow> bool" where
  "isdigit c = (CHR ''0'' \<le> c \<and> c \<le> CHR ''9'')"

fun strtol_digits :: "int \<Rightarrow> string \<Rightarrow> int" where
  "strtol_digits acc [] = acc"
| "strtol_digits acc (c # cs) =
     (if isdigit c then strtol_digits (acc * 10 + (int (of_char c) - int (of_char CHR ''0''))) cs
      else acc)"

definition strtol :: "string \<Rightarrow> int" where
  "strtol s =
     (let v = (case dropWhile isspace s of
                 [] \<Rightarrow> 0
               | c # cs \<Rightarrow>
                   if c = CHR ''-'' then - strtol_digits 0 cs
                   else if c = CHR ''+'' then strtol_digits 0 cs
                   else strtol_digits 0 (c # cs))
      in max (- (2 ^ 63)) (min (2 ^ 63 - 1) v))"

definition atoi :: "string \<Rightarrow> int" where
  "atoi s = sint (word_of_int (strtol s) :: 32 word)"

text \<open>
  \<^verbatim>\<open>nameSorter\<close> orders functions by name and then by pointer; \<^verbatim>\<open>sorted_funcs\<close> is the
  set of the IR's functions in that order.
\<close>

definition sorted_funcs :: "file_ir \<Rightarrow> func_id list" where
  "sorted_funcs ir = sort_key (\<lambda>f. (getName (func_at ir f), f)) (remdups (all_functions ir))"

text \<open>
  The loop of \<^verbatim>\<open>execute\<close> (lines 528-538); \<open>ss_max_do_transform\<close> is the value of
  \<^verbatim>\<open>getenv("SS_MAX_DO_TRANSFORM")\<close>, \<open>None\<close> when the variable is not set.
\<close>

fun execute_loop :: "string option \<Rightarrow> StackStamp_t \<Rightarrow> func_id list \<Rightarrow> abort + StackStamp_t" where
  "execute_loop ss_max_do_transform st [] = Inr st"
| "execute_loop ss_max_do_transform st (f # rest) =
     (case ss_max_do_transform of
        None \<Rightarrow>
          (case stamp_function st f of
             Inl e \<Rightarrow> Inl e
           | Inr st' \<Rightarrow> execute_loop ss_max_do_transform st' rest)
      | Some cap \<Rightarrow>
          if m_functions_transformed st > atoi cap
          then execute_loop ss_max_do_transform st rest
          else
            (case stamp_function st f of
               Inl e \<Rightarrow> Inl e
             | Inr st' \<Rightarrow> execute_loop ss_max_do_transform st' rest))"

text \<open>
  \<^verbatim>\<open>execute\<close> with \<^verbatim>\<open>SELF_VALIDATE\<close> unset (its three assertions then hold trivially);
  the statistics it prints are not part of the result.  It returns the object's final
  state and the success flag.
\<close>

definition execute :: "string option \<Rightarrow> StackStamp_t \<Rightarrow> abort + (StackStamp_t \<times> bool)" where
  "execute ss_max_do_transform st =
     (case execute_loop ss_max_do_transform st (sorted_funcs (getFileIR st)) of
        Inl e \<Rightarrow> Inl e
      | Inr st1 \<Rightarrow>
          (let st2 = cleanup_eh_pgms st1 in Inr (st2, m_functions_transformed st2 > 0)))"

text \<open>The constructor of \<^verbatim>\<open>StackStamp_t\<close> (lines 61-67, and the initialisers of ss.hpp).\<close>

definition new_StackStamp :: "file_ir \<Rightarrow> 32 word \<Rightarrow> bool \<Rightarrow> StackStamp_t" where
  "new_StackStamp p_variantIR sv p_verbose =
     \<lparr> getFileIR = p_variantIR, m_stamp_value = sv, m_verbose = p_verbose, all_eh_pgms = [],
       m_instructions_added = 0, m_functions_transformed = 0, m_functions_not_transformed = 0 \<rparr>"

section \<open>Concrete programs\<close>

text \<open>
  Small IRs on which the definitions are evaluated.  Relocation 0 has the type
  \<^verbatim>\<open>fix_call_fallthrough\<close>, every other relocation the type \<^verbatim>\<open>pcrel\<close>.  Functions 0
  (\<^verbatim>\<open>alpha\<close>, instructions 0-3, entry 0) and 1 (\<^verbatim>\<open>beta\<close>, instructions 4-7, entry 4)
  consist of plain instructions; the programs below change single instructions.
\<close>

definition plain_insn :: "func_id \<Rightarrow> reloc_id list \<Rightarrow> instruction" where
  "plain_insn f rs =
     \<lparr> isReturn = False, isCall = False, isUnconditionalBranch = False,
       getTarget = None, getFallthrough = None, getIBTargets = None,
       getRelocations = rs, getFunction = Some f, getEhProgram = None,
       getDisassembly = ''nop'' \<rparr>"

definition two_funcs :: "func_id \<Rightarrow> func" where
  "two_funcs f =
     (if f = 0 then \<lparr> getName = ''alpha'', getEntryPoint = Some 0, getInstructions = [0, 1, 2, 3] \<rparr>
      else \<lparr> getName = ''beta'', getEntryPoint = Some 4, getInstructions = [4, 5, 6, 7] \<rparr>)"

definition no_eh_program :: eh_program where
  "no_eh_program =
     \<lparr> caf = 1, daf = -8, rr = 16, ptrsize = 8, cie_program = [], fde_program = [],
       relocs = [] \<rparr>"

text \<open>\<open>base_ir rs\<close>: every instruction carries the relocations \<open>rs\<close>.\<close>

definition base_ir :: "reloc_id list \<Rightarrow> file_ir" where
  "base_ir rs =
     \<lparr> getArchitectureBitWidth = 64,
       insn_at = (\<lambda>i. plain_insn (if i < 4 then 0 else 1) rs),
       func_at = two_funcs,
       reloc_type_at = (\<lambda>r. if r = 0 then ''fix_call_fallthrough'' else ''pcrel''),
       ehpgm_at = (\<lambda>p. no_eh_program),
       all_instructions = [0, 1, 2, 3, 4, 5, 6, 7],
       all_functions = [0, 1],
       getAllEhPrograms = {},
       next_insn = 8,
       next_ehpgm = 0,
       insertions = [] \<rparr>"

definition with_insn :: "file_ir \<Rightarrow> insn_id \<Rightarrow> instruction \<Rightarrow> file_ir" where
  "with_insn ir i insn = ir \<lparr> insn_at := (insn_at ir)(i := insn) \<rparr>"

text \<open>
  A fixed call in \<^verbatim>\<open>alpha\<close>: instruction 0 is the jump of a push/jump pair, tagged with
  relocation 0, with its target in \<^verbatim>\<open>beta\<close> and the return site as fallthrough.  The
  other instructions carry no relocation.
\<close>

definition fixed_call_ir :: file_ir where
  "fixed_call_ir =
     with_insn (base_ir []) 0
       ((plain_insn 0 [0]) \<lparr> getTarget := Some 4, getFallthrough := Some 1 \<rparr>)"

text \<open>
  All instructions tagged with relocation 0; instruction 2 of \<^verbatim>\<open>alpha\<close> is a tagged jump
  to \<^verbatim>\<open>beta\<close> without fallthrough.
\<close>

definition fixed_jump_ir :: file_ir where
  "fixed_jump_ir =
     with_insn (base_ir [0]) 2 ((plain_insn 0 [0]) \<lparr> getTarget := Some 4 \<rparr>)"

text \<open>
  No relocations anywhere; instruction 2 of \<^verbatim>\<open>alpha\<close> is a conditional branch to
  \<^verbatim>\<open>beta\<close> with a fallthrough.
\<close>

definition cond_exit_ir :: file_ir where
  "cond_exit_ir =
     with_insn (base_ir []) 2
       ((plain_insn 0 []) \<lparr> getTarget := Some 4, getFallthrough := Some 3 \<rparr>)"

text \<open>
  No relocations anywhere; the entry of \<^verbatim>\<open>alpha\<close> is an unconditional indirect branch
  whose target set, marked complete, holds instruction 1 of \<^verbatim>\<open>alpha\<close> and instruction 4
  of \<^verbatim>\<open>beta\<close>.
\<close>

definition ambiguous_ib_ir :: file_ir where
  "ambiguous_ib_ir =
     with_insn (base_ir []) 0
       ((plain_insn 0 [])
          \<lparr> isUnconditionalBranch := True,
            getIBTargets := Some \<lparr> ib_targets = [1, 4], isComplete = True \<rparr> \<rparr>)"

text \<open>
  As \<open>cond_exit_ir\<close>, but the conditional branch carries relocation 1, of type
  \<^verbatim>\<open>pcrel\<close>.
\<close>

definition cond_exit_reloc_ir :: file_ir where
  "cond_exit_reloc_ir =
     with_insn (base_ir []) 2
       ((plain_insn 0 [1]) \<lparr> getTarget := Some 4, getFallthrough := Some 3 \<rparr>)"

text \<open>
  As \<open>ambiguous_ib_ir\<close>, but the indirect branch carries relocation 1, of type
  \<^verbatim>\<open>pcrel\<close>.
\<close>

definition ambiguous_ib_reloc_ir :: file_ir where
  "ambiguous_ib_reloc_ir =
     with_insn (base_ir []) 0
       ((plain_insn 0 [1])
          \<lparr> isUnconditionalBranch := True,
            getIBTargets := Some \<lparr> ib_targets = [1, 4], isComplete = True \<rparr> \<rparr>)"

text \<open>
  No relocations but one: the entry of \<^verbatim>\<open>alpha\<close> is an unconditional indirect branch
  to instruction 4 of \<^verbatim>\<open>beta\<close> that carries relocation 1, of type \<^verbatim>\<open>pcrel\<close>;
  instruction 3 of \<^verbatim>\<open>alpha\<close> is a return.
\<close>

definition entry_ib_ir :: file_ir where
  "entry_ib_ir =
     with_insn
       (with_insn (base_ir []) 0
          ((plain_insn 0 [1])
             \<lparr> isUnconditionalBranch := True,
               getIBTargets := Some \<lparr> ib_targets = [4], isComplete = True \<rparr> \<rparr>))
       3 ((plain_insn 0 []) \<lparr> isReturn := True \<rparr>)"

text \<open>No relocations anywhere; the entry of \<^verbatim>\<open>alpha\<close> is a return.\<close>

definition plain_entry_return_ir :: file_ir where
  "plain_entry_return_ir = with_insn (base_ir []) 0 ((plain_insn 0 []) \<lparr> isReturn := True \<rparr>)"

text \<open>All instructions tagged; the entry of \<^verbatim>\<open>alpha\<close> is a return.\<close>

definition entry_return_ir :: file_ir where
  "entry_return_ir = with_insn (base_ir [0]) 0 ((plain_insn 0 [0]) \<lparr> isReturn := True \<rparr>)"

text \<open>
  All instructions tagged; the entry of \<^verbatim>\<open>alpha\<close> is a conditional branch to itself,
  falling through to instruction 1.
\<close>

definition entry_loop_ir :: file_ir where
  "entry_loop_ir =
     with_insn (base_ir [0]) 0
       ((plain_insn 0 [0]) \<lparr> getTarget := Some 0, getFallthrough := Some 1 \<rparr>)"

text \<open>
  All instructions tagged; instruction 3 of \<^verbatim>\<open>alpha\<close> jumps back to the entry and
  instruction 2 calls it.
\<close>

definition back_edge_ir :: file_ir where
  "back_edge_ir =
     with_insn
       (with_insn (base_ir [0]) 3 ((plain_insn 0 [0]) \<lparr> getTarget := Some 0 \<rparr>))
       2 ((plain_insn 0 [0]) \<lparr> isCall := True, getTarget := Some 0, getFallthrough := Some 3 \<rparr>)"

text \<open>
  Reading the operand size off an instruction's assembly text: the size keyword is the
  word after the mnemonic (\<^verbatim>\<open>byte\<close>, \<^verbatim>\<open>word\<close>, \<^verbatim>\<open>dword\<close>, \<^verbatim>\<open>qword\<close> in the
  assembler's syntax).
\<close>

definition size_keyword :: "string \<Rightarrow> string" where
  "size_keyword s =
     takeWhile (\<lambda>c. c \<noteq> CHR '' '')
       (dropWhile (\<lambda>c. c = CHR '' '')
          (dropWhile (\<lambda>c. c \<noteq> CHR '' '')
             (dropWhile (\<lambda>c. c = CHR '' '') s)))"

definition operand_bits :: "string \<Rightarrow> nat option" where
  "operand_bits s =
     (let k = size_keyword s
      in if k = ''byte'' then Some 8
         else if k = ''word'' then Some 16
         else if k = ''dword'' then Some 32
         else if k = ''qword'' then Some 64
         else None)"

text \<open>
  The invariant of the cache: every cached handle is allocated and stores exactly the
  program it is filed under, and no program is filed twice.
\<close>

definition cache_consistent :: "StackStamp_t \<Rightarrow> bool" where
  "cache_consistent st =
     ((\<forall>(k, v)\<in>set (all_eh_pgms st).
         v < next_ehpgm (getFileIR st) \<and> ehpgm_at (getFileIR st) v = k) \<and>
      distinct (map fst (all_eh_pgms st)))"

text \<open>What a later state keeps of an earlier one while \<^verbatim>\<open>eh_update\<close> runs.\<close>

definition eh_extends :: "StackStamp_t \<Rightarrow> StackStamp_t \<Rightarrow> bool" where
  "eh_extends st st' =
     (next_ehpgm (getFileIR st) \<le> next_ehpgm (getFileIR st') \<and>
      (\<forall>p<next_ehpgm (getFileIR st). ehpgm_at (getFileIR st') p = ehpgm_at (getFileIR st) p) \<and>
      (\<forall>k v. map_of (all_eh_pgms st) k = Some v \<longrightarrow> map_of (all_eh_pgms st') k = Some v) \<and>
      func_at (getFileIR st') = func_at (getFileIR st) \<and>
      getArchitectureBitWidth (getFileIR st') = getArchitectureBitWidth (getFileIR st) \<and>
      m_stamp_value st' = m_stamp_value st)"

text \<open>
  Unwind programs 0 and 1 are two stored programs with the same content.  Instructions
  0 and 1 of \<^verbatim>\<open>alpha\<close> reference program 0, instruction 5 of \<^verbatim>\<open>beta\<close> references
  program 1.
\<close>

definition shared_eh_ir :: file_ir where
  "shared_eh_ir =
     (with_insn
        (with_insn
           (with_insn (base_ir []) 0 ((plain_insn 0 []) \<lparr> getEhProgram := Some 0 \<rparr>))
           1 ((plain_insn 0 []) \<lparr> getEhProgram := Some 0 \<rparr>))
        5 ((plain_insn 1 []) \<lparr> getEhProgram := Some 1 \<rparr>))
     \<lparr> getAllEhPrograms := {0, 1}, next_ehpgm := 2 \<rparr>"

text \<open>The number of stamps inserted before the instruction with handle \<open>i\<close> so far.\<close>

definition stamps_received :: "file_ir \<Rightarrow> insn_id \<Rightarrow> nat" where
  "stamps_received ir i = count_list (map fst (insertions ir)) i"

text \<open>
  The handles an instruction holds are allocated: its own, its direct target and its
  indirect-branch targets lie below the allocation counter.
\<close>

definition handles_allocated :: "file_ir \<Rightarrow> insn_id \<Rightarrow> bool" where
  "handles_allocated ir i =
     (i < next_insn ir \<and>
      (\<forall>t. getTarget (insn_at ir i) = Some t \<longrightarrow> t < next_insn ir) \<and>
      (\<forall>c. getIBTargets (insn_at ir i) = Some c \<longrightarrow> (\<forall>t\<in>set (ib_targets c). t < next_insn ir)))"

section \<open>Relocation lookup and what rests on it\<close>

lemma findRelocation_no_match:
  "find (\<lambda>reloc. reloc_type_at ir reloc = type) (getRelocations (insn_at ir i)) = None
   \<Longrightarrow> findRelocation ir i type =
         InvalidIteratorDeref (read_through_end (getRelocations (insn_at ir i)))"
  by (simp add: findRelocation_def Let_def)

lemma findRelocation_match:
  "find (\<lambda>reloc. reloc_type_at ir reloc = type) (getRelocations (insn_at ir i)) = Some r
   \<Longrightarrow> findRelocation ir i type = Returned Null"
  by (simp add: findRelocation_def Let_def)

lemma findRelocation_never_finds: "returned (findRelocation ir i type) \<noteq> Reloc r"
  by (simp add: findRelocation_def read_through_end_def Let_def split: option.splits)

text \<open>
  The caller sees \<^verbatim>\<open>NULL\<close> when the instruction has a relocation of the type or has
  no relocation at all, and a non-null value when it has relocations of other types
  only.
\<close>

lemma findRelocation_null_iff:
  "returned (findRelocation ir i type) = Null \<longleftrightarrow>
     getRelocations (insn_at ir i) = [] \<or>
     (\<exists>r\<in>set (getRelocations (insn_at ir i)). reloc_type_at ir r = type)"
proof (cases "find (\<lambda>reloc. reloc_type_at ir reloc = type) (getRelocations (insn_at ir i))")
  case None
  then have "\<not> (\<exists>r\<in>set (getRelocations (insn_at ir i)). reloc_type_at ir r = type)"
    by (auto simp: find_None_iff)
  then show ?thesis
    using None by (simp add: findRelocation_def read_through_end_def Let_def)
next
  case (Some r)
  then have "\<exists>r\<in>set (getRelocations (insn_at ir i)). reloc_type_at ir r = type"
    by (auto simp: find_Some_iff)
  then show ?thesis
    using Some by (simp add: findRelocation_def Let_def)
qed

text \<open>
  C10.  The claim: \<^verbatim>\<open>findRelocation\<close> evaluates \<^verbatim>\<open>*find_it\<close> only when \<^verbatim>\<open>find_it\<close> refers
  to an element of the relocation set, and not when no relocation of the requested
  type exists.  The code does the opposite.  On an instruction without relocations
  (instruction 0 of a program whose instructions carry none) the search ends at the
  end iterator, the condition \<^verbatim>\<open>find_it==end(relocs)\<close> holds, and the first branch of
  the conditional dereferences that end iterator (the value read from the empty set
  is \<^verbatim>\<open>NULL\<close>).
\<close>

theorem findRelocation_dereferences_end:
  "findRelocation (base_ir []) 0 ''fix_call_fallthrough'' = InvalidIteratorDeref Null"
  by code_simp

text \<open>
  C1.  The claim: an instruction tagged with a \<^verbatim>\<open>fix_call_fallthrough\<close> relocation is
  treated like a call by \<^verbatim>\<open>can_stamp\<close> and by the loop of \<^verbatim>\<open>stamp\<close>: it never causes a
  rejection and never gets a stamp.  In the code the lookup returns \<^verbatim>\<open>NULL\<close> exactly
  when the relocation is there, so the tagged instruction is classified by its other
  fields.  The tagged jump with a fallthrough in \<open>fixed_call_ir\<close> makes \<^verbatim>\<open>can_stamp\<close>
  reject its function, and the tagged jump without fallthrough in \<open>fixed_jump_ir\<close>
  (instruction 2) gets a stamp, followed by the stamp of the entry (instruction 0).
\<close>

theorem fixed_call_not_treated_as_call:
  "can_stamp fixed_call_ir 0 = Inr False \<and>
   stamps_insn fixed_jump_ir 0 2 = Inr True \<and>
   map_sum id (\<lambda>st. map fst (insertions (getFileIR st)))
     (stamp_function (new_StackStamp fixed_jump_ir 0x2a False) 0) = Inr [2, 0]"
  by code_simp

text \<open>
  C5.  The claim: a function with a conditional branch that leaves it (direct target
  outside, fallthrough not null) makes \<^verbatim>\<open>can_stamp\<close> return false, and no stamp is
  inserted into it.  That is what happens in \<open>cond_exit_ir\<close>, where the branch has
  no relocation.  In \<open>cond_exit_reloc_ir\<close> the same branch carries a relocation of
  another type: the lookup reads a non-null value through the end iterator, the test
  \<^verbatim>\<open>reloc!=NULL\<close> takes the branch for a fixed call, \<^verbatim>\<open>can_stamp\<close> returns true, and the
  function is transformed (one stamp, before the entry).
\<close>

theorem cond_exit_with_relocation_accepted:
  "can_stamp cond_exit_ir 0 = Inr False \<and>
   can_stamp cond_exit_reloc_ir 0 = Inr True \<and>
   map_sum id (\<lambda>st. (m_functions_transformed st, map fst (insertions (getFileIR st))))
     (stamp_function (new_StackStamp cond_exit_reloc_ir 0x2a False) 0) = Inr (1, [0])"
  by code_simp

text \<open>
  C6.  The claim: a function with an unconditional indirect branch whose targets lie
  both inside and outside the function is rejected by \<^verbatim>\<open>can_stamp\<close>, also when the
  target set is marked complete.  That is what happens in \<open>ambiguous_ib_ir\<close>, where
  the branch has no relocation.  In \<open>ambiguous_ib_reloc_ir\<close> the same branch carries
  a relocation of another type: the lookup reads a non-null value through the end
  iterator, the branch is taken for a fixed call before its targets are looked at,
  \<^verbatim>\<open>can_stamp\<close> returns true, and the function is transformed (one stamp, before the
  entry).
\<close>

theorem ambiguous_ib_with_relocation_accepted:
  "can_stamp ambiguous_ib_ir 0 = Inr False \<and>
   can_stamp ambiguous_ib_reloc_ir 0 = Inr True \<and>
   map_sum id (\<lambda>st. (m_functions_transformed st, map fst (insertions (getFileIR st))))
     (stamp_function (new_StackStamp ambiguous_ib_reloc_ir 0x2a False) 0) = Inr (1, [0])"
  by code_simp

text \<open>
  C9.  The claim: with \<^verbatim>\<open>SS_MAX_DO_TRANSFORM\<close> set to \<open>N\<close>, at most \<open>N\<close> functions are
  transformed.  The loop bypasses a function only when the count of transformed
  functions is greater than \<open>N\<close>, so it transforms one more.  With the cap \<^verbatim>\<open>0\<close> and
  the two eligible functions of \<open>base_ir [0]\<close>, one function is transformed (and one
  stamp inserted, before instruction 0); with the cap \<^verbatim>\<open>1\<close>, both are.
\<close>

theorem cap_transforms_one_more:
  "atoi ''0'' = 0 \<and> atoi ''1'' = 1 \<and>
   map_sum id (\<lambda>(st, ok). (m_functions_transformed st, map fst (insertions (getFileIR st))))
     (execute (Some ''0'') (new_StackStamp (base_ir [0]) 0x2a False)) = Inr (1, [0]) \<and>
   map_sum id (\<lambda>(st, ok). (m_functions_transformed st, map fst (insertions (getFileIR st))))
     (execute (Some ''1'') (new_StackStamp (base_ir [0]) 0x2a False)) = Inr (2, [0, 4])"
  by code_simp

section \<open>The emitted stamp\<close>

lemma size_keyword_stamp: "size_keyword (stamp_assembly bits sv) = ''dword''"
  by (simp add: size_keyword_def stamp_assembly_def)

text \<open>
  C4, as stated: the emitted instruction has an operand of the target's pointer width,
  64 bits on a 64-bit target.  On a 64-bit target the text emitted is an \<^verbatim>\<open>xor dword\<close>
  on \<^verbatim>\<open>[rsp]\<close>: the register follows the width, the operand is 32 bits.
\<close>

theorem stamp_operand_counterexample:
  "stamp_assembly 64 0x2a = '' xor dword [rsp], 0x2a'' \<and>
   operand_bits (stamp_assembly 64 0x2a) = Some 32"
  by (simp add: operand_bits_def size_keyword_stamp)
     (simp add: stamp_assembly_def hex.simps hex_digit_def)

text \<open>
  C4, amended.  Every stamp insertion emits \<^verbatim>\<open>xor dword [SP], 0x<stamp>\<close>, where \<^verbatim>\<open>SP\<close> is
  \<^verbatim>\<open>rsp\<close> when the architecture's width is 64 and \<^verbatim>\<open>esp\<close> otherwise and the stamp
  value is printed in hexadecimal: the operand is 32 bits wide on every target.  The
  stamp takes the place (the handle) of the protected instruction, whose original
  content moves to a new instruction that the stamp falls through to; the counter of
  added instructions grows by one.
\<close>

theorem stamp_instruction_emits:
  assumes "i < next_insn (getFileIR st)"
  shows "getDisassembly (insn_at (getFileIR (stamp_instruction st f i)) i) =
           '' xor dword [''
             @ (if getArchitectureBitWidth (getFileIR st) = 64 then ''rsp'' else ''esp'')
             @ ''], 0x'' @ hex (unat (m_stamp_value st)) \<and>
         operand_bits (getDisassembly (insn_at (getFileIR (stamp_instruction st f i)) i)) = Some 32 \<and>
         getFallthrough (insn_at (getFileIR (stamp_instruction st f i)) i) =
           Some (next_insn (getFileIR st)) \<and>
         insn_at (getFileIR (stamp_instruction st f i)) (next_insn (getFileIR st)) =
           insn_at (getFileIR st) i \<and>
         m_instructions_added (stamp_instruction st f i) = m_instructions_added st + 1"
  using assms
  by (simp add: stamp_instruction_def insertAssemblyBefore_def Let_def get_stamp_def
      operand_bits_def size_keyword_stamp) (simp add: stamp_assembly_def)

theorem stamp_instruction_emits_witness:
  "(0::nat) < next_insn (getFileIR (new_StackStamp (base_ir [0]) 0x2a False)) \<and>
   getDisassembly
     (insn_at (getFileIR (stamp_instruction (new_StackStamp (base_ir [0]) 0x2a False) 0 0)) 0) =
     '' xor dword [rsp], 0x2a'' \<and>
   getFallthrough
     (insn_at (getFileIR (stamp_instruction (new_StackStamp (base_ir [0]) 0x2a False) 0 0)) 0) =
     Some 8 \<and>
   insn_at (getFileIR (stamp_instruction (new_StackStamp (base_ir [0]) 0x2a False) 0 0)) 8 =
     plain_insn 0 [0]"
proof -
  have h: "(0::nat) < next_insn (getFileIR (new_StackStamp (base_ir [0]) 0x2a False))"
    by (simp add: new_StackStamp_def base_ir_def)
  show ?thesis
    using h stamp_instruction_emits [OF h, of 0]
    by (simp add: new_StackStamp_def base_ir_def hex.simps hex_digit_def)
qed

section \<open>The compactor\<close>

lemma collect_eh_pgms_eq:
  "collect_eh_pgms ir is acc = acc \<union> {p. \<exists>i\<in>set is. getEhProgram (insn_at ir i) = Some p}"
  by (induction "is" arbitrary: acc) (auto split: option.splits)

text \<open>
  C8.  After \<^verbatim>\<open>cleanup_eh_pgms\<close> the program-wide registry of unwind programs is exactly
  the set of programs that the program's instructions reference: every program in the
  registry is referenced by an instruction, and every non-null reference of an
  instruction is in the registry.  The cleanup changes the registry only: the
  program's instructions, their references and the stored programs are as before.
\<close>

theorem cleanup_registry_exact:
  "getAllEhPrograms (getFileIR (cleanup_eh_pgms st)) =
     {p. \<exists>i\<in>set (all_instructions (getFileIR st)).
           getEhProgram (insn_at (getFileIR st) i) = Some p} \<and>
   all_instructions (getFileIR (cleanup_eh_pgms st)) = all_instructions (getFileIR st) \<and>
   insn_at (getFileIR (cleanup_eh_pgms st)) = insn_at (getFileIR st) \<and>
   ehpgm_at (getFileIR (cleanup_eh_pgms st)) = ehpgm_at (getFileIR st) \<and>
   func_at (getFileIR (cleanup_eh_pgms st)) = func_at (getFileIR st) \<and>
   all_eh_pgms (cleanup_eh_pgms st) = all_eh_pgms st"
  by (simp add: cleanup_eh_pgms_def collect_eh_pgms_eq)

section \<open>The unwind-program cache\<close>

text \<open>
  Two placeholders are equivalent under \<^verbatim>\<open>operator<\<close> (neither is less than the other)
  exactly when their seven fields are equal, so the cache is a map keyed by content.
\<close>

lemma unat_sint_inj:
  "unat (a::8 word) = unat b \<longleftrightarrow> a = b" "sint (c::8 word) = sint d \<longleftrightarrow> c = d"
  by (auto intro: unsigned_word_eqI signed_word_eqI)

lemma placeholder_key_inj: "placeholder_key a = placeholder_key b \<Longrightarrow> a = b"
  by (cases a, cases b) (simp add: placeholder_key_def unat_sint_inj)

lemma placeholder_equiv_iff: "placeholder_equiv a b \<longleftrightarrow> a = b"
proof
  assume "placeholder_equiv a b"
  then have "placeholder_key a = placeholder_key b"
    by (simp add: placeholder_equiv_def placeholder_less_def not_less order_antisym)
  then show "a = b" by (rule placeholder_key_inj)
next
  assume "a = b"
  then show "placeholder_equiv a b"
    by (simp add: placeholder_equiv_def placeholder_less_def)
qed

lemma map_find_map_of: "map_find m k = map_of m k"
  by (induction m) (auto simp: placeholder_equiv_iff)

lemma map_assign_new: "map_of m k = None \<Longrightarrow> map_assign m k v = m @ [(k, v)]"
  by (induction m) (auto simp: placeholder_equiv_iff split: if_splits)

lemma eh_program_eta:
  "\<lparr> caf = caf r, daf = daf r, rr = rr r, ptrsize = ptrsize r, cie_program = cie_program r,
     fde_program = fde_program r, relocs = relocs r \<rparr> = r"
  by (cases r) simp

text \<open>The three cases of the loop body, as equations.\<close>

lemma eh_update_insn_none:
  "getEhProgram (insn_at (getFileIR st) i) = None \<Longrightarrow> eh_update_insn dw st i = st"
  by (simp add: eh_update_insn_def)

lemma eh_update_insn_reuse:
  "getEhProgram (insn_at (getFileIR st) i) = Some p \<Longrightarrow>
   map_of (all_eh_pgms st) (derived_program dw (ehpgm_at (getFileIR st) p)) = Some v \<Longrightarrow>
   eh_update_insn dw st i = st \<lparr> getFileIR := setEhProgram (getFileIR st) i v \<rparr>"
  by (simp add: eh_update_insn_def map_find_map_of)

lemma eh_update_insn_fresh:
  "getEhProgram (insn_at (getFileIR st) i) = Some p \<Longrightarrow>
   map_of (all_eh_pgms st) (derived_program dw (ehpgm_at (getFileIR st) p)) = None \<Longrightarrow>
   eh_update_insn dw st i =
     st \<lparr> getFileIR := (getFileIR st)
            \<lparr> ehpgm_at := (ehpgm_at (getFileIR st))
                 (next_ehpgm (getFileIR st) := derived_program dw (ehpgm_at (getFileIR st) p)),
              insn_at := (insn_at (getFileIR st))
                 (i := (insn_at (getFileIR st) i) \<lparr> getEhProgram := Some (next_ehpgm (getFileIR st)) \<rparr>),
              getAllEhPrograms := insert (next_ehpgm (getFileIR st)) (getAllEhPrograms (getFileIR st)),
              next_ehpgm := Suc (next_ehpgm (getFileIR st)) \<rparr>,
          all_eh_pgms := all_eh_pgms st
            @ [(derived_program dw (ehpgm_at (getFileIR st) p), next_ehpgm (getFileIR st))] \<rparr>"
  by (simp add: eh_update_insn_def map_find_map_of map_assign_new addEhProgram_def
      setRelocations_def Let_def eh_program_eta)


lemma eh_update_insn_step:
  assumes inv: "cache_consistent st"
  shows "cache_consistent (eh_update_insn dw st i) \<and>
         eh_extends st (eh_update_insn dw st i) \<and>
         (\<forall>j. j \<noteq> i \<longrightarrow> insn_at (getFileIR (eh_update_insn dw st i)) j = insn_at (getFileIR st) j) \<and>
         (\<forall>p. getEhProgram (insn_at (getFileIR st) i) = Some p \<longrightarrow>
            (\<exists>v. getEhProgram (insn_at (getFileIR (eh_update_insn dw st i)) i) = Some v \<and>
                 map_of (all_eh_pgms (eh_update_insn dw st i))
                   (derived_program dw (ehpgm_at (getFileIR st) p)) = Some v))"
proof (cases "getEhProgram (insn_at (getFileIR st) i)")
  case None
  then show ?thesis
    using inv by (simp add: eh_update_insn_none eh_extends_def)
next
  case (Some p)
  let ?nep = "derived_program dw (ehpgm_at (getFileIR st) p)"
  show ?thesis
  proof (cases "map_of (all_eh_pgms st) ?nep")
    case None
    have fresh: "?nep \<notin> fst ` set (all_eh_pgms st)"
      using None by (simp add: map_of_eq_None_iff)
    have old: "\<forall>(k, v)\<in>set (all_eh_pgms st). v < next_ehpgm (getFileIR st)"
      using inv by (auto simp: cache_consistent_def)
    show ?thesis
      using inv fresh Some None
      unfolding eh_update_insn_fresh [OF Some None]
      by (auto simp: cache_consistent_def eh_extends_def map_add_def split: option.splits)
  next
    case (Some v)
    show ?thesis
      using inv \<open>getEhProgram (insn_at (getFileIR st) i) = Some p\<close> Some
      unfolding eh_update_insn_reuse [OF \<open>getEhProgram (insn_at (getFileIR st) i) = Some p\<close> Some]
      by (auto simp: cache_consistent_def eh_extends_def setEhProgram_def)
  qed
qed


lemma eh_extends_refl: "eh_extends st st"
  by (simp add: eh_extends_def)

lemma eh_extends_trans: "eh_extends a b \<Longrightarrow> eh_extends b c \<Longrightarrow> eh_extends a c"
  by (auto simp: eh_extends_def)

lemma eh_update_loop_shares:
  assumes "cache_consistent st" and "distinct is"
    and "\<forall>i\<in>set is. \<forall>p. getEhProgram (insn_at (getFileIR st) i) = Some p
           \<longrightarrow> p < next_ehpgm (getFileIR st)"
  shows "cache_consistent (eh_update_loop dw st is) \<and>
         eh_extends st (eh_update_loop dw st is) \<and>
         (\<forall>j. j \<notin> set is \<longrightarrow>
            insn_at (getFileIR (eh_update_loop dw st is)) j = insn_at (getFileIR st) j) \<and>
         (\<forall>i\<in>set is. \<forall>p. getEhProgram (insn_at (getFileIR st) i) = Some p \<longrightarrow>
            (\<exists>v. getEhProgram (insn_at (getFileIR (eh_update_loop dw st is)) i) = Some v \<and>
                 map_of (all_eh_pgms (eh_update_loop dw st is))
                   (derived_program dw (ehpgm_at (getFileIR st) p)) = Some v))"
  using assms
proof (induction "is" arbitrary: st)
  case Nil
  then show ?case by (simp add: eh_extends_refl)
next
  case (Cons i rest)
  let ?st1 = "eh_update_insn dw st i"
  let ?st' = "eh_update_loop dw ?st1 rest"
  note step = eh_update_insn_step [OF Cons.prems(1), of dw i]
  have c1: "cache_consistent ?st1" and e1: "eh_extends st ?st1"
    and f1: "\<And>j. j \<noteq> i \<Longrightarrow> insn_at (getFileIR ?st1) j = insn_at (getFileIR st) j"
    using step by auto
  have r1: "\<And>p. getEhProgram (insn_at (getFileIR st) i) = Some p \<Longrightarrow>
      \<exists>v. getEhProgram (insn_at (getFileIR ?st1) i) = Some v \<and>
          map_of (all_eh_pgms ?st1) (derived_program dw (ehpgm_at (getFileIR st) p)) = Some v"
    using step by blast
  have ni: "i \<notin> set rest" and dr: "distinct rest"
    using Cons.prems(2) by auto
  have same: "\<And>j. j \<in> set rest \<Longrightarrow> insn_at (getFileIR ?st1) j = insn_at (getFileIR st) j"
    by (metis f1 ni)
  have al1: "\<forall>j\<in>set rest. \<forall>q. getEhProgram (insn_at (getFileIR ?st1) j) = Some q
              \<longrightarrow> q < next_ehpgm (getFileIR ?st1)"
  proof (intro ballI allI impI)
    fix j q
    assume j: "j \<in> set rest" and q: "getEhProgram (insn_at (getFileIR ?st1) j) = Some q"
    then have "q < next_ehpgm (getFileIR st)"
      using Cons.prems(3) same by simp
    then show "q < next_ehpgm (getFileIR ?st1)"
      using e1 by (simp add: eh_extends_def)
  qed
  note ih = Cons.IH [OF c1 dr al1]
  have c': "cache_consistent ?st'" and e': "eh_extends ?st1 ?st'"
    and f': "\<And>j. j \<notin> set rest \<Longrightarrow> insn_at (getFileIR ?st') j = insn_at (getFileIR ?st1) j"
    using ih by auto
  have r': "\<And>j q. j \<in> set rest \<Longrightarrow> getEhProgram (insn_at (getFileIR ?st1) j) = Some q \<Longrightarrow>
      \<exists>v. getEhProgram (insn_at (getFileIR ?st') j) = Some v \<and>
          map_of (all_eh_pgms ?st') (derived_program dw (ehpgm_at (getFileIR ?st1) q)) = Some v"
    using ih by blast
  have frame: "\<forall>j. j \<notin> set (i # rest) \<longrightarrow> insn_at (getFileIR ?st') j = insn_at (getFileIR st) j"
    using f' f1 by simp
  have shared: "\<forall>k\<in>set (i # rest). \<forall>p. getEhProgram (insn_at (getFileIR st) k) = Some p \<longrightarrow>
      (\<exists>v. getEhProgram (insn_at (getFileIR ?st') k) = Some v \<and>
           map_of (all_eh_pgms ?st') (derived_program dw (ehpgm_at (getFileIR st) p)) = Some v)"
  proof (intro ballI allI impI)
    fix k p
    assume k: "k \<in> set (i # rest)" and p: "getEhProgram (insn_at (getFileIR st) k) = Some p"
    show "\<exists>v. getEhProgram (insn_at (getFileIR ?st') k) = Some v \<and>
           map_of (all_eh_pgms ?st') (derived_program dw (ehpgm_at (getFileIR st) p)) = Some v"
    proof (cases "k = i")
      case True
      from r1 [of p] p True obtain v where
        v: "getEhProgram (insn_at (getFileIR ?st1) i) = Some v"
           "map_of (all_eh_pgms ?st1) (derived_program dw (ehpgm_at (getFileIR st) p)) = Some v"
        by auto
      have "getEhProgram (insn_at (getFileIR ?st') i) = Some v"
        using f' [OF ni] v(1) by simp
      moreover have "map_of (all_eh_pgms ?st') (derived_program dw (ehpgm_at (getFileIR st) p)) = Some v"
        using e' v(2) by (simp add: eh_extends_def)
      ultimately show ?thesis using True by blast
    next
      case False
      then have kr: "k \<in> set rest" using k by simp
      have p1: "getEhProgram (insn_at (getFileIR ?st1) k) = Some p"
        using same [OF kr] p by simp
      have "p < next_ehpgm (getFileIR st)"
        using Cons.prems(3) k p by blast
      then have "ehpgm_at (getFileIR ?st1) p = ehpgm_at (getFileIR st) p"
        using e1 by (simp add: eh_extends_def)
      then show ?thesis using r' [OF kr p1] by simp
    qed
  qed
  show ?case
    using c' eh_extends_trans [OF e1 e'] frame shared by simp
qed


lemma eh_update_insn_frame:
  "func_at (getFileIR (eh_update_insn dw st i)) = func_at (getFileIR st) \<and>
   getArchitectureBitWidth (getFileIR (eh_update_insn dw st i)) = getArchitectureBitWidth (getFileIR st) \<and>
   m_stamp_value (eh_update_insn dw st i) = m_stamp_value st"
  by (simp add: eh_update_insn_def addEhProgram_def setRelocations_def setEhProgram_def Let_def
      split: option.splits)

lemma eh_update_loop_frame:
  "func_at (getFileIR (eh_update_loop dw st is)) = func_at (getFileIR st) \<and>
   getArchitectureBitWidth (getFileIR (eh_update_loop dw st is)) = getArchitectureBitWidth (getFileIR st) \<and>
   m_stamp_value (eh_update_loop dw st is) = m_stamp_value st"
  by (induction "is" arbitrary: st) (simp_all add: eh_update_insn_frame)

lemma eh_update_loop_append:
  "eh_update_loop dw st (a @ b) = eh_update_loop dw (eh_update_loop dw st a) b"
  by (induction a arbitrary: st) simp_all

lemma eh_update_Inr:
  "eh_update st f = Inr st' \<Longrightarrow>
   st' = eh_update_loop (dwarf_instruction (getArchitectureBitWidth (getFileIR st)) (m_stamp_value st))
           st (getInstructions (func_at (getFileIR st) f))"
  by (simp add: eh_update_def Let_def get_stamp_def split: if_splits)

lemma eh_update_functions_flat:
  "eh_update_functions st fs = Inr st' \<Longrightarrow>
   st' = eh_update_loop (dwarf_instruction (getArchitectureBitWidth (getFileIR st)) (m_stamp_value st))
           st (concat (map (\<lambda>f. getInstructions (func_at (getFileIR st) f)) fs))"
proof (induction fs arbitrary: st)
  case Nil
  then show ?case by simp
next
  case (Cons f fs)
  from Cons.prems obtain st1 where
    s1: "eh_update st f = Inr st1" and rest: "eh_update_functions st1 fs = Inr st'"
    by (auto split: sum.splits)
  note eq1 = eh_update_Inr [OF s1]
  have fr: "func_at (getFileIR st1) = func_at (getFileIR st)"
    "getArchitectureBitWidth (getFileIR st1) = getArchitectureBitWidth (getFileIR st)"
    "m_stamp_value st1 = m_stamp_value st"
    by (simp_all add: eq1 eh_update_loop_frame)
  from Cons.IH [OF rest] have
    "st' = eh_update_loop (dwarf_instruction (getArchitectureBitWidth (getFileIR st)) (m_stamp_value st))
             st1 (concat (map (\<lambda>f. getInstructions (func_at (getFileIR st) f)) fs))"
    by (simp add: fr)
  then show ?case
    by (simp add: eh_update_loop_append eq1 [symmetric])
qed

text \<open>
  C3.  Start from a transform whose cache is empty, as constructed, and run
  \<^verbatim>\<open>eh_update\<close> over functions \<open>fs\<close> whose instruction sets are disjoint (every
  instruction belongs to one function) and whose unwind programs are allocated
  objects.  Afterwards any two of their instructions whose derived programs (the old
  program with the new leading FDE instruction) are equal on all seven fields
  reference the identical stored program, which holds exactly that derived content;
  and no two distinct programs stored in the cache are content-equal.
\<close>

theorem eh_update_shares_programs:
  assumes "all_eh_pgms st = []"
    and "distinct (concat (map (\<lambda>f. getInstructions (func_at (getFileIR st) f)) fs))"
    and "\<forall>f\<in>set fs. \<forall>i\<in>set (getInstructions (func_at (getFileIR st) f)). \<forall>p.
           getEhProgram (insn_at (getFileIR st) i) = Some p \<longrightarrow> p < next_ehpgm (getFileIR st)"
    and "eh_update_functions st fs = Inr st'"
  shows "(\<forall>f\<in>set fs. \<forall>g\<in>set fs.
           \<forall>i\<in>set (getInstructions (func_at (getFileIR st) f)).
           \<forall>j\<in>set (getInstructions (func_at (getFileIR st) g)). \<forall>p q.
             getEhProgram (insn_at (getFileIR st) i) = Some p \<and>
             getEhProgram (insn_at (getFileIR st) j) = Some q \<and>
             derived_program
               (dwarf_instruction (getArchitectureBitWidth (getFileIR st)) (m_stamp_value st))
               (ehpgm_at (getFileIR st) p) =
             derived_program
               (dwarf_instruction (getArchitectureBitWidth (getFileIR st)) (m_stamp_value st))
               (ehpgm_at (getFileIR st) q)
             \<longrightarrow> getEhProgram (insn_at (getFileIR st') i) = getEhProgram (insn_at (getFileIR st') j) \<and>
                 (\<exists>v. getEhProgram (insn_at (getFileIR st') i) = Some v \<and>
                      ehpgm_at (getFileIR st') v =
                        derived_program
                          (dwarf_instruction (getArchitectureBitWidth (getFileIR st)) (m_stamp_value st))
                          (ehpgm_at (getFileIR st) p))) \<and>
         (\<forall>(k1, v1)\<in>set (all_eh_pgms st'). \<forall>(k2, v2)\<in>set (all_eh_pgms st').
            ehpgm_at (getFileIR st') v1 = ehpgm_at (getFileIR st') v2 \<longrightarrow> v1 = v2)"
proof -
  let ?dw = "dwarf_instruction (getArchitectureBitWidth (getFileIR st)) (m_stamp_value st)"
  let ?is = "concat (map (\<lambda>f. getInstructions (func_at (getFileIR st) f)) fs)"
  have st': "st' = eh_update_loop ?dw st ?is"
    using assms(4) by (rule eh_update_functions_flat)
  have inv0: "cache_consistent st"
    using assms(1) by (simp add: cache_consistent_def)
  have al: "\<forall>i\<in>set ?is. \<forall>p. getEhProgram (insn_at (getFileIR st) i) = Some p
              \<longrightarrow> p < next_ehpgm (getFileIR st)"
    using assms(3) by auto
  note L = eh_update_loop_shares [OF inv0 assms(2) al, of ?dw, folded st']
  have inv: "cache_consistent st'" using L by simp
  have found: "\<And>i p. i \<in> set ?is \<Longrightarrow> getEhProgram (insn_at (getFileIR st) i) = Some p \<Longrightarrow>
      \<exists>v. getEhProgram (insn_at (getFileIR st') i) = Some v \<and>
          map_of (all_eh_pgms st') (derived_program ?dw (ehpgm_at (getFileIR st) p)) = Some v"
    using L by blast
  have stored: "\<And>k v. map_of (all_eh_pgms st') k = Some v \<Longrightarrow> ehpgm_at (getFileIR st') v = k"
    using inv by (auto simp: cache_consistent_def dest: map_of_SomeD)
  have part1: "getEhProgram (insn_at (getFileIR st') i) = getEhProgram (insn_at (getFileIR st') j) \<and>
      (\<exists>v. getEhProgram (insn_at (getFileIR st') i) = Some v \<and>
           ehpgm_at (getFileIR st') v = derived_program ?dw (ehpgm_at (getFileIR st) p))"
    if "f \<in> set fs" "g \<in> set fs"
      "i \<in> set (getInstructions (func_at (getFileIR st) f))"
      "j \<in> set (getInstructions (func_at (getFileIR st) g))"
      "getEhProgram (insn_at (getFileIR st) i) = Some p"
      "getEhProgram (insn_at (getFileIR st) j) = Some q"
      "derived_program ?dw (ehpgm_at (getFileIR st) p) = derived_program ?dw (ehpgm_at (getFileIR st) q)"
    for f g i j p q
  proof -
    have "i \<in> set ?is" "j \<in> set ?is" using that(1-4) by auto
    from found [OF this(1) that(5)] found [OF this(2) that(6)] that(7) stored
    show ?thesis by fastforce
  qed
  have part2: "v1 = v2"
    if "(k1, v1) \<in> set (all_eh_pgms st')" "(k2, v2) \<in> set (all_eh_pgms st')"
      "ehpgm_at (getFileIR st') v1 = ehpgm_at (getFileIR st') v2"
    for k1 v1 k2 v2
  proof -
    have "ehpgm_at (getFileIR st') v1 = k1" "ehpgm_at (getFileIR st') v2 = k2"
      using inv that(1,2) by (auto simp: cache_consistent_def)
    then have "k1 = k2" using that(3) by simp
    moreover have "distinct (map fst (all_eh_pgms st'))"
      using inv by (simp add: cache_consistent_def)
    ultimately show ?thesis using that(1,2) by (metis eq_key_imp_eq_value)
  qed
  show ?thesis
    using part1 part2 by (intro conjI ballI allI impI) (blast+)
qed


lemma eh_update_functions_returns:
  assumes "getArchitectureBitWidth (getFileIR st) div 8 = 4 \<or>
           getArchitectureBitWidth (getFileIR st) div 8 = 8"
  shows "\<exists>st'. eh_update_functions st fs = Inr st'"
  using assms
proof (induction fs arbitrary: st)
  case Nil
  then show ?case by simp
next
  case (Cons f fs)
  obtain st1 where s1: "eh_update st f = Inr st1"
    using Cons.prems by (auto simp: eh_update_def Let_def)
  have "getArchitectureBitWidth (getFileIR st1) = getArchitectureBitWidth (getFileIR st)"
    by (simp add: eh_update_Inr [OF s1] eh_update_loop_frame)
  then show ?case
    using Cons.IH [of st1] Cons.prems s1 by simp
qed

theorem eh_update_shares_programs_witness:
  "\<exists>st'. eh_update_functions (new_StackStamp shared_eh_ir 0x2a False) [0, 1] = Inr st' \<and>
         getEhProgram (insn_at shared_eh_ir 0) = Some 0 \<and>
         getEhProgram (insn_at shared_eh_ir 5) = Some 1 \<and>
         getEhProgram (insn_at (getFileIR st') 0) = getEhProgram (insn_at (getFileIR st') 5) \<and>
         getEhProgram (insn_at (getFileIR st') 0) \<noteq> None"
proof -
  let ?st = "new_StackStamp shared_eh_ir 0x2a False"
  have "getArchitectureBitWidth (getFileIR ?st) div 8 = 8"
    by (simp add: new_StackStamp_def shared_eh_ir_def base_ir_def with_insn_def)
  then obtain st' where r: "eh_update_functions ?st [0, 1] = Inr st'"
    using eh_update_functions_returns [of ?st "[0, 1]"] by blast
  have h1: "all_eh_pgms ?st = []"
    by (simp add: new_StackStamp_def)
  have h2: "distinct (concat (map (\<lambda>f. getInstructions (func_at (getFileIR ?st) f)) [0, 1]))"
    by (simp add: new_StackStamp_def shared_eh_ir_def base_ir_def with_insn_def two_funcs_def)
  have h3: "\<forall>f\<in>set [0, 1]. \<forall>i\<in>set (getInstructions (func_at (getFileIR ?st) f)). \<forall>p.
      getEhProgram (insn_at (getFileIR ?st) i) = Some p \<longrightarrow> p < next_ehpgm (getFileIR ?st)"
    by (simp add: new_StackStamp_def shared_eh_ir_def base_ir_def with_insn_def two_funcs_def
        plain_insn_def)
  have e0: "getEhProgram (insn_at shared_eh_ir 0) = Some 0"
    and e5: "getEhProgram (insn_at shared_eh_ir 5) = Some 1"
    by (simp_all add: shared_eh_ir_def base_ir_def with_insn_def plain_insn_def)
  have "getEhProgram (insn_at (getFileIR st') 0) = getEhProgram (insn_at (getFileIR st') 5) \<and>
      (\<exists>v. getEhProgram (insn_at (getFileIR st') 0) = Some v \<and>
           ehpgm_at (getFileIR st') v =
             derived_program
               (dwarf_instruction (getArchitectureBitWidth (getFileIR ?st)) (m_stamp_value ?st))
               (ehpgm_at (getFileIR ?st) 0))"
    by (rule eh_update_shares_programs [OF h1 h2 h3 r, THEN conjunct1, rule_format, of 0 1 0 5 0 1])
       (simp_all add: new_StackStamp_def shared_eh_ir_def base_ir_def with_insn_def two_funcs_def
        plain_insn_def)
  then obtain v where
    eq: "getEhProgram (insn_at (getFileIR st') 0) = getEhProgram (insn_at (getFileIR st') 5)"
    and v: "getEhProgram (insn_at (getFileIR st') 0) = Some v"
    by blast
  from v have "getEhProgram (insn_at (getFileIR st') 0) \<noteq> None"
    by simp
  with r e0 e5 eq show ?thesis
    by blast
qed

section \<open>The per-function pass\<close>

text \<open>What one stamp insertion changes, and what it leaves alone.\<close>

lemma stamp_instruction_next:
  "next_insn (getFileIR (stamp_instruction st f j)) = Suc (next_insn (getFileIR st))"
  by (simp add: stamp_instruction_def insertAssemblyBefore_def Let_def)

lemma stamp_instruction_other:
  "k \<noteq> j \<Longrightarrow> k \<noteq> next_insn (getFileIR st) \<Longrightarrow>
   insn_at (getFileIR (stamp_instruction st f j)) k = insn_at (getFileIR st) k"
  by (simp add: stamp_instruction_def insertAssemblyBefore_def Let_def)

lemma stamp_instruction_fallthrough:
  "j \<noteq> next_insn (getFileIR st) \<Longrightarrow>
   getFallthrough (insn_at (getFileIR (stamp_instruction st f j)) j) = Some (next_insn (getFileIR st))"
  by (simp add: stamp_instruction_def insertAssemblyBefore_def Let_def)

lemma stamp_instruction_getFunction:
  "t \<noteq> next_insn (getFileIR st) \<Longrightarrow>
   getFunction (insn_at (getFileIR (stamp_instruction st f j)) t) = getFunction (insn_at (getFileIR st) t)"
  by (simp add: stamp_instruction_def insertAssemblyBefore_def Let_def)

lemma stamp_instruction_entry:
  "getEntryPoint (func_at (getFileIR (stamp_instruction st f j)) g) =
   getEntryPoint (func_at (getFileIR st) g)"
  by (simp add: stamp_instruction_def insertAssemblyBefore_def Let_def split: option.splits)

lemma stamp_instruction_reloc_type:
  "reloc_type_at (getFileIR (stamp_instruction st f j)) = reloc_type_at (getFileIR st)"
  by (simp add: stamp_instruction_def insertAssemblyBefore_def Let_def)

lemma stamp_instruction_received:
  "stamps_received (getFileIR (stamp_instruction st f j)) k =
   stamps_received (getFileIR st) k + (if k = j then 1 else 0)"
  by (simp add: stamp_instruction_def insertAssemblyBefore_def Let_def stamps_received_def)

lemma find_cong_on: "(\<And>x. x \<in> set xs \<Longrightarrow> P x = Q x) \<Longrightarrow> find P xs = find Q xs"
  by (induction xs) auto

text \<open>The loop's decision for an instruction does not depend on stamps inserted elsewhere.\<close>

lemma stamps_insn_stable:
  assumes "handles_allocated (getFileIR st) i" and "i \<noteq> j"
  shows "stamps_insn (getFileIR (stamp_instruction st f' j)) f i = stamps_insn (getFileIR st) f i"
proof -
  let ?ir = "getFileIR st" and ?ir1 = "getFileIR (stamp_instruction st f' j)"
  have lt: "i < next_insn ?ir" using assms(1) by (simp add: handles_allocated_def)
  have same: "insn_at ?ir1 i = insn_at ?ir i"
    using lt assms(2) by (simp add: stamp_instruction_other)
  have fr: "findRelocation ?ir1 i ty = findRelocation ?ir i ty" for ty
    by (simp add: findRelocation_def same stamp_instruction_reloc_type)
  have ex: "exits_function ?ir1 f (getTarget (insn_at ?ir i)) = exits_function ?ir f (getTarget (insn_at ?ir i))"
    using assms(1)
    by (auto simp: exits_function_def handles_allocated_def stamp_instruction_getFunction
        split: option.splits)
  have ib: "might_stay ?ir1 f c = might_stay ?ir f c \<and> might_leave ?ir1 f c = might_leave ?ir f c"
    if "getIBTargets (insn_at ?ir i) = Some c" for c
  proof -
    have "\<And>t. t \<in> set (ib_targets c) \<Longrightarrow>
        getFunction (insn_at ?ir1 t) = getFunction (insn_at ?ir t)"
      using assms(1) that by (auto simp: handles_allocated_def stamp_instruction_getFunction)
    then show ?thesis
      by (simp add: might_stay_def might_leave_def cong: find_cong_on)
  qed
  show ?thesis
    using ib by (auto simp: stamps_insn_def same fr ex stamp_instruction_entry Let_def
        split: sum.splits option.splits bool.splits)
qed

lemma handles_allocated_stable:
  assumes "handles_allocated (getFileIR st) i" and "i \<noteq> j"
  shows "handles_allocated (getFileIR (stamp_instruction st f j)) i"
  using assms
  by (auto simp: handles_allocated_def stamp_instruction_next stamp_instruction_other less_Suc_eq)


text \<open>
  The first loop of the pass over a snapshot of distinct, allocated instructions:
  every instruction the loop decides to stamp receives one stamp, no other handle
  receives any, and instructions the loop did not stamp are left as they were.
\<close>

lemma stamp_loop_effect:
  assumes "stamp_loop st f is = Inr st'" and "distinct is"
    and "\<forall>i\<in>set is. handles_allocated (getFileIR st) i"
  shows "(\<forall>k. stamps_received (getFileIR st') k =
              stamps_received (getFileIR st) k
                + (if k \<in> set is \<and> stamps_insn (getFileIR st) f k = Inr True then 1 else 0)) \<and>
         next_insn (getFileIR st) \<le> next_insn (getFileIR st') \<and>
         (\<forall>k. k < next_insn (getFileIR st) \<and>
               \<not> (k \<in> set is \<and> stamps_insn (getFileIR st) f k = Inr True)
               \<longrightarrow> insn_at (getFileIR st') k = insn_at (getFileIR st) k) \<and>
         (\<forall>g. getEntryPoint (func_at (getFileIR st') g) = getEntryPoint (func_at (getFileIR st) g))"
  using assms
proof (induction "is" arbitrary: st)
  case Nil
  then show ?case by simp
next
  case (Cons i rest)
  from Cons.prems(1) obtain yes where
    d: "stamps_insn (getFileIR st) f i = Inr yes"
    and run: "stamp_loop (if yes then stamp_instruction st f i else st) f rest = Inr st'"
    by (auto split: sum.splits)
  let ?st1 = "if yes then stamp_instruction st f i else st"
  have ni: "i \<notin> set rest" and dr: "distinct rest"
    using Cons.prems(2) by auto
  have al1: "\<forall>k\<in>set rest. handles_allocated (getFileIR ?st1) k"
    using Cons.prems(3) ni by (auto intro: handles_allocated_stable)
  have dec: "\<And>k. k \<in> set rest \<Longrightarrow> stamps_insn (getFileIR ?st1) f k = stamps_insn (getFileIR st) f k"
    using Cons.prems(3) ni by (auto intro: stamps_insn_stable)
  have nx: "next_insn (getFileIR st) \<le> next_insn (getFileIR ?st1)"
    by (simp add: stamp_instruction_next)
  have rc: "\<And>k. stamps_received (getFileIR ?st1) k =
      stamps_received (getFileIR st) k + (if k = i \<and> yes then 1 else 0)"
    by (simp add: stamp_instruction_received)
  have keep: "\<And>k. k < next_insn (getFileIR st) \<Longrightarrow> \<not> (k = i \<and> yes) \<Longrightarrow>
      insn_at (getFileIR ?st1) k = insn_at (getFileIR st) k"
    by (auto simp: stamp_instruction_other)
  have en: "\<And>g. getEntryPoint (func_at (getFileIR ?st1) g) = getEntryPoint (func_at (getFileIR st) g)"
    by (simp add: stamp_instruction_entry)
  note ih = Cons.IH [OF run dr al1]
  have ih1: "\<And>k. stamps_received (getFileIR st') k =
      stamps_received (getFileIR ?st1) k
        + (if k \<in> set rest \<and> stamps_insn (getFileIR ?st1) f k = Inr True then 1 else 0)"
    and ih2: "next_insn (getFileIR ?st1) \<le> next_insn (getFileIR st')"
    and ih3: "\<And>k. k < next_insn (getFileIR ?st1) \<Longrightarrow>
        \<not> (k \<in> set rest \<and> stamps_insn (getFileIR ?st1) f k = Inr True) \<Longrightarrow>
        insn_at (getFileIR st') k = insn_at (getFileIR ?st1) k"
    and ih4: "\<And>g. getEntryPoint (func_at (getFileIR st') g) = getEntryPoint (func_at (getFileIR ?st1) g)"
    using ih by blast+
  have g1: "stamps_received (getFileIR st') k =
      stamps_received (getFileIR st) k
        + (if k \<in> set (i # rest) \<and> stamps_insn (getFileIR st) f k = Inr True then 1 else 0)" for k
  proof (cases "k = i")
    case True
    then show ?thesis using ih1 [of k] rc [of k] ni d by auto
  next
    case False
    then show ?thesis using ih1 [of k] rc [of k] dec [of k] by auto
  qed
  have g3: "insn_at (getFileIR st') k = insn_at (getFileIR st) k"
    if "k < next_insn (getFileIR st)"
      "\<not> (k \<in> set (i # rest) \<and> stamps_insn (getFileIR st) f k = Inr True)" for k
  proof -
    have a: "\<not> (k = i \<and> yes)" using that(2) d by auto
    have b: "\<not> (k \<in> set rest \<and> stamps_insn (getFileIR ?st1) f k = Inr True)"
      using that(2) dec [of k] by auto
    have "k < next_insn (getFileIR ?st1)" using that(1) nx by simp
    from ih3 [OF this b] keep [OF that(1) a] show ?thesis by simp
  qed
  show ?case
    using g1 g3 nx ih2 ih4 en by (intro conjI allI impI) (auto simp del: stamp_loop.simps)
qed


text \<open>The second loop only changes targets, and only of the instructions it visits.\<close>

lemma skip_stamp_loop_effect:
  assumes "getEntryPoint (func_at ir f) = Some e" and "distinct is"
  shows "(\<forall>k. getFallthrough (insn_at (skip_stamp_loop ir f is) k) = getFallthrough (insn_at ir k)) \<and>
         (\<forall>k. k \<in> set is \<and> getTarget (insn_at ir k) = Some e \<and> \<not> isCall (insn_at ir k)
              \<longrightarrow> getTarget (insn_at (skip_stamp_loop ir f is) k) = getFallthrough (insn_at ir e)) \<and>
         (\<forall>k. \<not> (k \<in> set is \<and> getTarget (insn_at ir k) = Some e \<and> \<not> isCall (insn_at ir k))
              \<longrightarrow> insn_at (skip_stamp_loop ir f is) k = insn_at ir k) \<and>
         func_at (skip_stamp_loop ir f is) = func_at ir \<and>
         insertions (skip_stamp_loop ir f is) = insertions ir \<and>
         getArchitectureBitWidth (skip_stamp_loop ir f is) = getArchitectureBitWidth ir"
  using assms
proof (induction "is" arbitrary: ir)
  case Nil
  then show ?case by simp
next
  case (Cons i rest)
  let ?patch = "getTarget (insn_at ir i) = Some e \<and> \<not> isCall (insn_at ir i)"
  let ?ir1 = "if ?patch then setTarget ir i (getFallthrough (insn_at ir e)) else ir"
  have unfold: "skip_stamp_loop ir f (i # rest) = skip_stamp_loop ?ir1 f rest"
    using Cons.prems(1) by simp
  have ni: "i \<notin> set rest" and dr: "distinct rest"
    using Cons.prems(2) by auto
  have en1: "getEntryPoint (func_at ?ir1 f) = Some e"
    using Cons.prems(1) by (simp add: setTarget_def)
  have ft1: "\<And>k. getFallthrough (insn_at ?ir1 k) = getFallthrough (insn_at ir k)"
    and ic1: "\<And>k. isCall (insn_at ?ir1 k) = isCall (insn_at ir k)"
    and ot1: "\<And>k. k \<noteq> i \<Longrightarrow> insn_at ?ir1 k = insn_at ir k"
    and np1: "\<not> ?patch \<Longrightarrow> ?ir1 = ir"
    and tg1: "?patch \<Longrightarrow> getTarget (insn_at ?ir1 i) = getFallthrough (insn_at ir e)"
    and fr1: "func_at ?ir1 = func_at ir" "insertions ?ir1 = insertions ir"
      "getArchitectureBitWidth ?ir1 = getArchitectureBitWidth ir"
    by (auto simp: setTarget_def)
  note ih = Cons.IH [OF en1 dr]
  have ih1: "\<And>k. getFallthrough (insn_at (skip_stamp_loop ?ir1 f rest) k) = getFallthrough (insn_at ?ir1 k)"
    and ih2: "\<And>k. k \<in> set rest \<Longrightarrow> getTarget (insn_at ?ir1 k) = Some e \<Longrightarrow> \<not> isCall (insn_at ?ir1 k)
          \<Longrightarrow> getTarget (insn_at (skip_stamp_loop ?ir1 f rest) k) = getFallthrough (insn_at ?ir1 e)"
    and ih3: "\<And>k. \<not> (k \<in> set rest \<and> getTarget (insn_at ?ir1 k) = Some e \<and> \<not> isCall (insn_at ?ir1 k))
          \<Longrightarrow> insn_at (skip_stamp_loop ?ir1 f rest) k = insn_at ?ir1 k"
    and ih4: "func_at (skip_stamp_loop ?ir1 f rest) = func_at ?ir1"
      "insertions (skip_stamp_loop ?ir1 f rest) = insertions ?ir1"
      "getArchitectureBitWidth (skip_stamp_loop ?ir1 f rest) = getArchitectureBitWidth ?ir1"
    using ih by blast+
  have g1: "getFallthrough (insn_at (skip_stamp_loop ?ir1 f rest) k) = getFallthrough (insn_at ir k)" for k
    using ih1 [of k] ft1 [of k] by simp
  have g2: "getTarget (insn_at (skip_stamp_loop ?ir1 f rest) k) = getFallthrough (insn_at ir e)"
    if "k \<in> set (i # rest)" "getTarget (insn_at ir k) = Some e" "\<not> isCall (insn_at ir k)" for k
  proof (cases "k = i")
    case True
    have "insn_at (skip_stamp_loop ?ir1 f rest) i = insn_at ?ir1 i"
      using ih3 [of i] ni by blast
    then show ?thesis using True tg1 that by simp
  next
    case False
    then have kr: "k \<in> set rest" using that(1) by simp
    have "insn_at ?ir1 k = insn_at ir k" using ot1 [OF False] .
    then show ?thesis using ih2 [OF kr] that(2,3) ft1 [of e] by simp
  qed
  have g3: "insn_at (skip_stamp_loop ?ir1 f rest) k = insn_at ir k"
    if "\<not> (k \<in> set (i # rest) \<and> getTarget (insn_at ir k) = Some e \<and> \<not> isCall (insn_at ir k))" for k
  proof (cases "k = i")
    case True
    have "insn_at (skip_stamp_loop ?ir1 f rest) i = insn_at ?ir1 i"
      using ih3 [of i] ni by blast
    moreover have "?ir1 = ir" using that True by (intro np1) simp
    ultimately show ?thesis using True by simp
  next
    case False
    have eq: "insn_at ?ir1 k = insn_at ir k" using ot1 [OF False] .
    have "\<not> (k \<in> set rest \<and> getTarget (insn_at ?ir1 k) = Some e \<and> \<not> isCall (insn_at ?ir1 k))"
      using that False eq by simp
    from ih3 [OF this] eq show ?thesis by simp
  qed
  show ?case
    unfolding unfold using g1 g2 g3 ih4 fr1 by (intro conjI allI impI) auto
qed

lemma eh_update_insn_keeps:
  "getTarget (insn_at (getFileIR (eh_update_insn dw st i)) k) = getTarget (insn_at (getFileIR st) k) \<and>
   getFallthrough (insn_at (getFileIR (eh_update_insn dw st i)) k) = getFallthrough (insn_at (getFileIR st) k) \<and>
   insertions (getFileIR (eh_update_insn dw st i)) = insertions (getFileIR st)"
  by (simp add: eh_update_insn_def addEhProgram_def setRelocations_def setEhProgram_def Let_def
      split: option.splits)

lemma eh_update_loop_keeps:
  "getTarget (insn_at (getFileIR (eh_update_loop dw st is)) k) = getTarget (insn_at (getFileIR st) k) \<and>
   getFallthrough (insn_at (getFileIR (eh_update_loop dw st is)) k) = getFallthrough (insn_at (getFileIR st) k) \<and>
   insertions (getFileIR (eh_update_loop dw st is)) = insertions (getFileIR st)"
  by (induction "is" arbitrary: st) (simp_all add: eh_update_insn_keeps)


text \<open>The steps of the pass on a function that \<^verbatim>\<open>can_stamp\<close> accepts.\<close>

lemma stamp_function_eligible:
  assumes "stamp_function st f = Inr st'" and "can_stamp (getFileIR st) f = Inr True"
  shows "\<exists>st1 e1.
           stamp_loop (st \<lparr> m_functions_transformed := m_functions_transformed st + 1 \<rparr>) f
             (getInstructions (func_at (getFileIR st) f)) = Inr st1 \<and>
           getEntryPoint (func_at (getFileIR st1) f) = Some e1 \<and>
           eh_update
             ((stamp_instruction st1 f e1)
                \<lparr> getFileIR := skip_stamp_loop (getFileIR (stamp_instruction st1 f e1)) f
                                  (getInstructions (func_at (getFileIR st) f)) \<rparr>) f = Inr st'"
  using assms
  by (auto simp: stamp_function_def Let_def split: sum.splits option.splits)


text \<open>
  C2, as stated: the entry receives exactly one stamp whatever its own classification,
  and no instruction receives more than one.  In \<open>entry_return_ir\<close> the entry of the
  eligible function \<^verbatim>\<open>alpha\<close> is a return: the loop stamps it as a return, and the
  unconditional step after the loop stamps it again.
\<close>

theorem entry_return_stamped_twice:
  "can_stamp entry_return_ir 0 = Inr True \<and>
   getEntryPoint (func_at entry_return_ir 0) = Some 0 \<and>
   stamps_received entry_return_ir 0 = 0 \<and>
   map_sum id (\<lambda>st. stamps_received (getFileIR st) 0)
     (stamp_function (new_StackStamp entry_return_ir 0x2a False) 0) = Inr 2"
  by code_simp

text \<open>
  C2, amended.  After the pass on an eligible function whose snapshot holds distinct,
  allocated instructions, every instruction has received one stamp if the loop's
  classification stamped it and none otherwise, and the function's entry has received
  one more, from the unconditional step after the loop.  So the entry receives one
  stamp when the loop passes it over and two when the loop stamps it too (an entry
  that is a return, for one); every other instruction receives at most one.
\<close>

theorem stamp_function_stamps_received:
  assumes run: "stamp_function st f = Inr st'"
    and el: "can_stamp (getFileIR st) f = Inr True"
    and en: "getEntryPoint (func_at (getFileIR st) f) = Some e"
    and di: "distinct (getInstructions (func_at (getFileIR st) f))"
    and al: "\<forall>i\<in>set (getInstructions (func_at (getFileIR st) f)). handles_allocated (getFileIR st) i"
  shows "\<forall>k. stamps_received (getFileIR st') k =
              stamps_received (getFileIR st) k
                + (if k \<in> set (getInstructions (func_at (getFileIR st) f)) \<and>
                      stamps_insn (getFileIR st) f k = Inr True then 1 else 0)
                + (if k = e then 1 else 0)"
proof
  fix k
  let ?old = "getInstructions (func_at (getFileIR st) f)"
  let ?st0 = "st \<lparr> m_functions_transformed := m_functions_transformed st + 1 \<rparr>"
  from stamp_function_eligible [OF run el] obtain st1 e1 where
    loop: "stamp_loop ?st0 f ?old = Inr st1"
    and e1: "getEntryPoint (func_at (getFileIR st1) f) = Some e1"
    and eh: "eh_update
               ((stamp_instruction st1 f e1)
                  \<lparr> getFileIR := skip_stamp_loop (getFileIR (stamp_instruction st1 f e1)) f ?old \<rparr>) f
             = Inr st'"
    by blast
  have al0: "\<forall>i\<in>set ?old. handles_allocated (getFileIR ?st0) i"
    using al by simp
  note L = stamp_loop_effect [OF loop di al0]
  have "e1 = e" using L e1 en by simp
  have c1: "stamps_received (getFileIR st1) k =
      stamps_received (getFileIR st) k
        + (if k \<in> set ?old \<and> stamps_insn (getFileIR st) f k = Inr True then 1 else 0)"
    using L by simp
  let ?st2 = "stamp_instruction st1 f e"
  have c2: "stamps_received (getFileIR ?st2) k =
      stamps_received (getFileIR st1) k + (if k = e then 1 else 0)"
    by (simp add: stamp_instruction_received)
  have en2: "getEntryPoint (func_at (getFileIR ?st2) f) = Some e"
    using e1 \<open>e1 = e\<close> by (simp add: stamp_instruction_entry)
  let ?st3 = "?st2 \<lparr> getFileIR := skip_stamp_loop (getFileIR ?st2) f ?old \<rparr>"
  have c3: "stamps_received (getFileIR ?st3) k = stamps_received (getFileIR ?st2) k"
    using skip_stamp_loop_effect [OF en2 di] by (simp add: stamps_received_def)
  have "st' = eh_update_loop
      (dwarf_instruction (getArchitectureBitWidth (getFileIR ?st3)) (m_stamp_value ?st3)) ?st3
      (getInstructions (func_at (getFileIR ?st3) f))"
    using eh \<open>e1 = e\<close> by (intro eh_update_Inr) simp
  then have c4: "stamps_received (getFileIR st') k = stamps_received (getFileIR ?st3) k"
    by (simp add: stamps_received_def eh_update_loop_keeps)
  show "stamps_received (getFileIR st') k =
      stamps_received (getFileIR st) k
        + (if k \<in> set ?old \<and> stamps_insn (getFileIR st) f k = Inr True then 1 else 0)
        + (if k = e then 1 else 0)"
    using c1 c2 c3 c4 by simp
qed


theorem stamp_function_stamps_received_witness:
  "(\<exists>st'. stamp_function (new_StackStamp plain_entry_return_ir 0x2a False) 0 = Inr st' \<and>
          stamps_received (getFileIR st') 0 = 2 \<and>
          stamps_received (getFileIR st') 1 = 0) \<and>
   (\<exists>st'. stamp_function (new_StackStamp entry_ib_ir 0x2a False) 0 = Inr st' \<and>
          stamps_received (getFileIR st') 0 = 1 \<and>
          stamps_received (getFileIR st') 3 = 1 \<and>
          stamps_received (getFileIR st') 1 = 0)"
proof
  let ?st = "new_StackStamp plain_entry_return_ir 0x2a False"
  have "\<not> isl (stamp_function ?st 0)"
    by code_simp
  then obtain st' where run: "stamp_function ?st 0 = Inr st'"
    by (cases "stamp_function ?st 0") auto
  have el: "can_stamp (getFileIR ?st) 0 = Inr True"
    by code_simp
  have en: "getEntryPoint (func_at (getFileIR ?st) 0) = Some 0"
    by code_simp
  have di: "distinct (getInstructions (func_at (getFileIR ?st) 0))"
    by code_simp
  have al: "\<forall>i\<in>set (getInstructions (func_at (getFileIR ?st) 0)). handles_allocated (getFileIR ?st) i"
    by (simp add: handles_allocated_def new_StackStamp_def plain_entry_return_ir_def with_insn_def
        base_ir_def two_funcs_def plain_insn_def)
  note T = stamp_function_stamps_received [OF run el en di al]
  have d0: "stamps_insn (getFileIR ?st) 0 0 = Inr True"
    and d1: "stamps_insn (getFileIR ?st) 0 1 = Inr False"
    and r0: "stamps_received (getFileIR ?st) 0 = 0"
    and r1: "stamps_received (getFileIR ?st) 1 = 0"
    and m0: "0 \<in> set (getInstructions (func_at (getFileIR ?st) 0))"
    by code_simp+
  have "stamps_received (getFileIR st') 0 = 2"
    using T [rule_format, of 0] d0 r0 m0 by simp
  moreover have "stamps_received (getFileIR st') 1 = 0"
    using T [rule_format, of 1] d1 r1 by simp
  ultimately show "\<exists>st'. stamp_function ?st 0 = Inr st' \<and>
      stamps_received (getFileIR st') 0 = 2 \<and> stamps_received (getFileIR st') 1 = 0"
    using run by blast
next
  let ?st = "new_StackStamp entry_ib_ir 0x2a False"
  have "\<not> isl (stamp_function ?st 0)"
    by code_simp
  then obtain st' where run: "stamp_function ?st 0 = Inr st'"
    by (cases "stamp_function ?st 0") auto
  have el: "can_stamp (getFileIR ?st) 0 = Inr True"
    by code_simp
  have en: "getEntryPoint (func_at (getFileIR ?st) 0) = Some 0"
    by code_simp
  have di: "distinct (getInstructions (func_at (getFileIR ?st) 0))"
    by code_simp
  have al: "\<forall>i\<in>set (getInstructions (func_at (getFileIR ?st) 0)). handles_allocated (getFileIR ?st) i"
    by (simp add: handles_allocated_def new_StackStamp_def entry_ib_ir_def with_insn_def
        base_ir_def two_funcs_def plain_insn_def)
  note T = stamp_function_stamps_received [OF run el en di al]
  have d0: "stamps_insn (getFileIR ?st) 0 0 = Inr False"
    and d1: "stamps_insn (getFileIR ?st) 0 1 = Inr False"
    and d3: "stamps_insn (getFileIR ?st) 0 3 = Inr True"
    and r0: "stamps_received (getFileIR ?st) 0 = 0"
    and r1: "stamps_received (getFileIR ?st) 1 = 0"
    and r3: "stamps_received (getFileIR ?st) 3 = 0"
    and m3: "3 \<in> set (getInstructions (func_at (getFileIR ?st) 0))"
    by code_simp+
  have "stamps_received (getFileIR st') 0 = 1"
    using T [rule_format, of 0] d0 r0 by simp
  moreover have "stamps_received (getFileIR st') 3 = 1"
    using T [rule_format, of 3] d3 r3 m3 by simp
  moreover have "stamps_received (getFileIR st') 1 = 0"
    using T [rule_format, of 1] d1 r1 by simp
  ultimately show "\<exists>st'. stamp_function ?st 0 = Inr st' \<and>
      stamps_received (getFileIR st') 0 = 1 \<and> stamps_received (getFileIR st') 3 = 1 \<and>
      stamps_received (getFileIR st') 1 = 0"
    using run by blast
qed

text \<open>
  A snapshot instruction that the pass does not overwrite with a stamp (it is not the
  entry and the loop does not stamp it) and whose direct target is the entry: if it
  is a call, its target is still the entry after the pass; otherwise its target is
  the entry's fallthrough, the instruction that now holds the entry's original
  content.
\<close>

lemma entry_references_patched:
  assumes run: "stamp_function st f = Inr st'"
    and el: "can_stamp (getFileIR st) f = Inr True"
    and en: "getEntryPoint (func_at (getFileIR st) f) = Some e"
    and lt: "e < next_insn (getFileIR st)"
    and di: "distinct (getInstructions (func_at (getFileIR st) f))"
    and al: "\<forall>i\<in>set (getInstructions (func_at (getFileIR st) f)). handles_allocated (getFileIR st) i"
    and i: "i \<in> set (getInstructions (func_at (getFileIR st) f))"
    and ne: "i \<noteq> e"
    and ns: "stamps_insn (getFileIR st) f i = Inr False"
    and tg: "getTarget (insn_at (getFileIR st) i) = Some e"
  shows "(if isCall (insn_at (getFileIR st) i)
          then getTarget (insn_at (getFileIR st') i) = Some e
          else getTarget (insn_at (getFileIR st') i) = getFallthrough (insn_at (getFileIR st') e) \<and>
               getTarget (insn_at (getFileIR st') i) \<noteq> Some e \<and>
               getTarget (insn_at (getFileIR st') i) \<noteq> None)"
proof -
  let ?old = "getInstructions (func_at (getFileIR st) f)"
  let ?st0 = "st \<lparr> m_functions_transformed := m_functions_transformed st + 1 \<rparr>"
  from stamp_function_eligible [OF run el] obtain st1 e1 where
    loop: "stamp_loop ?st0 f ?old = Inr st1"
    and e1: "getEntryPoint (func_at (getFileIR st1) f) = Some e1"
    and eh: "eh_update
               ((stamp_instruction st1 f e1)
                  \<lparr> getFileIR := skip_stamp_loop (getFileIR (stamp_instruction st1 f e1)) f ?old \<rparr>) f
             = Inr st'"
    by blast
  have al0: "\<forall>i\<in>set ?old. handles_allocated (getFileIR ?st0) i"
    using al by simp
  note L = stamp_loop_effect [OF loop di al0]
  have "e1 = e" using L e1 en by simp
  have il: "i < next_insn (getFileIR st)"
    using al i by (simp add: handles_allocated_def)
  have nx: "next_insn (getFileIR st) \<le> next_insn (getFileIR st1)"
    using L by simp
  have i1: "insn_at (getFileIR st1) i = insn_at (getFileIR st) i"
    using L il ns by simp
  let ?n = "next_insn (getFileIR st1)"
  let ?st2 = "stamp_instruction st1 f e"
  have i2: "insn_at (getFileIR ?st2) i = insn_at (getFileIR st) i"
    using i1 il nx ne by (simp add: stamp_instruction_other)
  have f2: "getFallthrough (insn_at (getFileIR ?st2) e) = Some ?n"
    using lt nx by (simp add: stamp_instruction_fallthrough)
  have en2: "getEntryPoint (func_at (getFileIR ?st2) f) = Some e"
    using e1 \<open>e1 = e\<close> by (simp add: stamp_instruction_entry)
  let ?ir3 = "skip_stamp_loop (getFileIR ?st2) f ?old"
  let ?st3 = "?st2 \<lparr> getFileIR := ?ir3 \<rparr>"
  note P = skip_stamp_loop_effect [OF en2 di]
  have f3: "getFallthrough (insn_at ?ir3 e) = Some ?n"
    using P f2 by simp
  have t3: "getTarget (insn_at ?ir3 i) = (if isCall (insn_at (getFileIR st) i) then Some e else Some ?n)"
  proof (cases "isCall (insn_at (getFileIR st) i)")
    case True
    then have "insn_at ?ir3 i = insn_at (getFileIR ?st2) i"
      using P i2 by simp
    then show ?thesis using True i2 tg by simp
  next
    case False
    then have "getTarget (insn_at ?ir3 i) = getFallthrough (insn_at (getFileIR ?st2) e)"
      using P i i2 tg by simp
    then show ?thesis using False f2 by simp
  qed
  have "st' = eh_update_loop
      (dwarf_instruction (getArchitectureBitWidth (getFileIR ?st3)) (m_stamp_value ?st3)) ?st3
      (getInstructions (func_at (getFileIR ?st3) f))"
    using eh \<open>e1 = e\<close> by (intro eh_update_Inr) simp
  then have k4: "getTarget (insn_at (getFileIR st') k) = getTarget (insn_at ?ir3 k) \<and>
      getFallthrough (insn_at (getFileIR st') k) = getFallthrough (insn_at ?ir3 k)" for k
    by (simp add: eh_update_loop_keeps)
  have "?n \<noteq> e" using lt nx by simp
  then show ?thesis
    using k4 [of i] k4 [of e] t3 f3 by simp
qed



text \<open>
  In \<open>back_edge_ir\<close> the jump back to the entry (instruction 3) is retargeted to the
  moved entry (instruction 8), and the recursive call (instruction 2) still targets
  the entry.
\<close>

lemma back_edge_is_patched:
  "map_sum id
     (\<lambda>st. (getTarget (insn_at (getFileIR st) 3), getTarget (insn_at (getFileIR st) 2),
            getFallthrough (insn_at (getFileIR st) 0)))
     (stamp_function (new_StackStamp back_edge_ir 0x2a False) 0) = Inr (Some 8, Some 0, Some 8)"
  by code_simp

text \<open>
  C7.  The claim: after the patching step every instruction of the snapshot whose
  direct target was the entry and which is not a call has the entry's fallthrough as
  its target, never the entry.  In \<open>entry_loop_ir\<close> the entry itself is a conditional
  branch to the entry.  The entry stamp overwrites instruction 0 and moves the branch
  to the new instruction 8, which is not in the snapshot the patching loop walks:
  after the pass instruction 0 (now the stamp) has no target, the entry's fallthrough
  is instruction 8, and instruction 8 still targets the entry, so every turn of the
  loop runs the stamp again.
\<close>

theorem entry_self_reference_not_patched:
  "can_stamp entry_loop_ir 0 = Inr True \<and>
   getEntryPoint (func_at entry_loop_ir 0) = Some 0 \<and>
   getInstructions (func_at entry_loop_ir 0) = [0, 1, 2, 3] \<and>
   getTarget (insn_at entry_loop_ir 0) = Some 0 \<and>
   isCall (insn_at entry_loop_ir 0) = False \<and>
   map_sum id
     (\<lambda>st. (getTarget (insn_at (getFileIR st) 0), getFallthrough (insn_at (getFileIR st) 0),
            getTarget (insn_at (getFileIR st) 8)))
     (stamp_function (new_StackStamp entry_loop_ir 0x2a False) 0) = Inr (None, Some 8, Some 0)"
  by code_simp

section \<open>What the eligibility tests and the cap do\<close>

lemma can_stamp_loop_True:
  "can_stamp_loop ir f is = Inr True \<Longrightarrow> i \<in> set is \<Longrightarrow> can_stamp_insn ir f i = Inr True"
  by (induction "is") (auto split: sum.splits if_splits)

lemma can_stamp_True:
  "can_stamp ir f = Inr True \<Longrightarrow> i \<in> set (getInstructions (func_at ir f)) \<Longrightarrow>
   can_stamp_insn ir f i = Inr True"
  by (auto simp: can_stamp_def split: if_splits intro: can_stamp_loop_True)

text \<open>
  Where the lookup yields \<^verbatim>\<open>NULL\<close> on the instruction (it has no relocation, or one
  of type \<^verbatim>\<open>fix_call_fallthrough\<close>), the tests of \<^verbatim>\<open>can_stamp\<close> on conditional exits
  and on ambiguous indirect branches never let the function pass.
\<close>

lemma cond_exit_never_accepted:
  assumes "i \<in> set (getInstructions (func_at ir f))"
    and "returned (findRelocation ir i fix_call_fallthrough_string) = Null"
    and "\<not> isReturn (insn_at ir i)" and "\<not> isCall (insn_at ir i)"
    and "getTarget (insn_at ir i) = Some t" and "getFunction (insn_at ir t) \<noteq> Some f"
    and "getFallthrough (insn_at ir i) \<noteq> None"
  shows "can_stamp ir f \<noteq> Inr True"
proof
  assume "can_stamp ir f = Inr True"
  then have "can_stamp_insn ir f i = Inr True"
    using assms(1) by (rule can_stamp_True)
  then show False
    using assms(2-7)
    by (auto simp: can_stamp_insn_def exits_function_def Let_def)
qed

lemma ambiguous_ib_never_accepted:
  assumes "i \<in> set (getInstructions (func_at ir f))"
    and "returned (findRelocation ir i fix_call_fallthrough_string) = Null"
    and "\<not> isReturn (insn_at ir i)" and "\<not> isCall (insn_at ir i)"
    and "\<not> exits_function ir f (getTarget (insn_at ir i))"
    and "isUnconditionalBranch (insn_at ir i)"
    and "getIBTargets (insn_at ir i) = Some icfs"
    and "t1 \<in> set (ib_targets icfs)" and "getFunction (insn_at ir t1) = Some f"
    and "t2 \<in> set (ib_targets icfs)" and "getFunction (insn_at ir t2) \<noteq> Some f"
  shows "can_stamp ir f \<noteq> Inr True"
proof
  assume "can_stamp ir f = Inr True"
  then have ok: "can_stamp_insn ir f i = Inr True"
    using assms(1) by (rule can_stamp_True)
  have "might_stay ir f icfs" "might_leave ir f icfs"
    using assms(8-11) by (auto simp: might_stay_def might_leave_def find_None_iff)
  then show False
    using ok assms(2-7)
    by (auto simp: can_stamp_insn_def Let_def split: if_splits)
qed

text \<open>The counter of transformed functions grows by one per accepted function.\<close>

lemma stamp_instruction_counters:
  "m_functions_transformed (stamp_instruction st f i) = m_functions_transformed st"
  by (simp add: stamp_instruction_def Let_def)

lemma stamp_loop_counters:
  "stamp_loop st f is = Inr st' \<Longrightarrow> m_functions_transformed st' = m_functions_transformed st"
  by (induction "is" arbitrary: st) (auto simp: stamp_instruction_counters split: sum.splits if_splits)

lemma eh_update_insn_counters:
  "m_functions_transformed (eh_update_insn dw st i) = m_functions_transformed st"
  by (simp add: eh_update_insn_def Let_def split: option.splits prod.splits)

lemma eh_update_loop_counters:
  "m_functions_transformed (eh_update_loop dw st is) = m_functions_transformed st"
  by (induction "is" arbitrary: st) (simp_all add: eh_update_insn_counters)

lemma stamp_function_counters:
  assumes "stamp_function st f = Inr st'"
  shows "m_functions_transformed st' =
           m_functions_transformed st + (if can_stamp (getFileIR st) f = Inr True then 1 else 0)"
proof (cases "can_stamp (getFileIR st) f = Inr True")
  case True
  from stamp_function_eligible [OF assms True] obtain st1 e1 where
    loop: "stamp_loop (st \<lparr> m_functions_transformed := m_functions_transformed st + 1 \<rparr>) f
             (getInstructions (func_at (getFileIR st) f)) = Inr st1"
    and eh: "eh_update
               ((stamp_instruction st1 f e1)
                  \<lparr> getFileIR := skip_stamp_loop (getFileIR (stamp_instruction st1 f e1)) f
                                    (getInstructions (func_at (getFileIR st) f)) \<rparr>) f = Inr st'"
    by blast
  have "m_functions_transformed st1 = m_functions_transformed st + 1"
    using stamp_loop_counters [OF loop] by simp
  moreover have "m_functions_transformed st' = m_functions_transformed st1"
    by (simp add: eh_update_Inr [OF eh] eh_update_loop_counters stamp_instruction_counters)
  ultimately show ?thesis using True by simp
next
  case False
  then show ?thesis
    using assms by (auto simp: stamp_function_def split: sum.splits bool.splits)
qed

text \<open>With the cap set to \<open>N\<close>, the loop of \<^verbatim>\<open>execute\<close> stops transforming at \<open>N + 1\<close> functions.\<close>

lemma execute_loop_cap:
  assumes "execute_loop (Some cap) st fs = Inr st'"
    and "m_functions_transformed st \<le> atoi cap + 1"
  shows "m_functions_transformed st' \<le> atoi cap + 1"
  using assms
proof (induction fs arbitrary: st)
  case Nil
  then show ?case by simp
next
  case (Cons f fs)
  show ?case
  proof (cases "m_functions_transformed st > atoi cap")
    case True
    then show ?thesis using Cons by simp
  next
    case False
    with Cons.prems(1) obtain st1 where
      s: "stamp_function st f = Inr st1" and r: "execute_loop (Some cap) st1 fs = Inr st'"
      by (auto split: sum.splits)
    have "m_functions_transformed st1 \<le> atoi cap + 1"
      using stamp_function_counters [OF s] False by simp
    then show ?thesis using Cons.IH [OF r] by simp
  qed
qed

section \<open>The cache during the whole pass\<close>

text \<open>
  The invariant of the cache holds throughout \<^verbatim>\<open>execute\<close>, where \<^verbatim>\<open>eh_update\<close> alternates
  with the stamping of further functions: inserting stamps and patching targets touch
  neither the cache nor the stored programs.
\<close>

lemma cache_consistent_injective:
  assumes "cache_consistent st"
    and "(k1, v1) \<in> set (all_eh_pgms st)" and "(k2, v2) \<in> set (all_eh_pgms st)"
    and "ehpgm_at (getFileIR st) v1 = ehpgm_at (getFileIR st) v2"
  shows "v1 = v2"
proof -
  have "ehpgm_at (getFileIR st) v1 = k1" "ehpgm_at (getFileIR st) v2 = k2"
    using assms(1-3) by (auto simp: cache_consistent_def)
  then have "k1 = k2" using assms(4) by simp
  moreover have "distinct (map fst (all_eh_pgms st))"
    using assms(1) by (simp add: cache_consistent_def)
  ultimately show ?thesis using assms(2,3) by (metis eq_key_imp_eq_value)
qed

lemma eh_update_loop_cache_consistent:
  "cache_consistent st \<Longrightarrow> cache_consistent (eh_update_loop dw st is)"
  by (induction "is" arbitrary: st) (simp_all add: eh_update_insn_step)

lemma stamp_instruction_cache_consistent:
  "cache_consistent st \<Longrightarrow> cache_consistent (stamp_instruction st f i)"
  by (simp add: cache_consistent_def stamp_instruction_def insertAssemblyBefore_def Let_def)

lemma stamp_loop_cache_consistent:
  "stamp_loop st f is = Inr st' \<Longrightarrow> cache_consistent st \<Longrightarrow> cache_consistent st'"
  by (induction "is" arbitrary: st)
     (auto simp: stamp_instruction_cache_consistent split: sum.splits if_splits)

lemma skip_stamp_loop_eh:
  "ehpgm_at (skip_stamp_loop ir f is) = ehpgm_at ir \<and>
   next_ehpgm (skip_stamp_loop ir f is) = next_ehpgm ir"
  by (induction "is" arbitrary: ir) (simp_all add: setTarget_def split: option.splits)

lemma stamp_function_cache_consistent:
  assumes "stamp_function st f = Inr st'" and "cache_consistent st"
  shows "cache_consistent st'"
proof (cases "can_stamp (getFileIR st) f = Inr True")
  case True
  from stamp_function_eligible [OF assms(1) True] obtain st1 e1 where
    loop: "stamp_loop (st \<lparr> m_functions_transformed := m_functions_transformed st + 1 \<rparr>) f
             (getInstructions (func_at (getFileIR st) f)) = Inr st1"
    and eh: "eh_update
               ((stamp_instruction st1 f e1)
                  \<lparr> getFileIR := skip_stamp_loop (getFileIR (stamp_instruction st1 f e1)) f
                                    (getInstructions (func_at (getFileIR st) f)) \<rparr>) f = Inr st'"
    by blast
  have "cache_consistent (st \<lparr> m_functions_transformed := m_functions_transformed st + 1 \<rparr>)"
    using assms(2) by (simp add: cache_consistent_def)
  then have "cache_consistent st1"
    using loop by (rule stamp_loop_cache_consistent [rotated])
  then have "cache_consistent (stamp_instruction st1 f e1)"
    by (rule stamp_instruction_cache_consistent)
  then have "cache_consistent
      ((stamp_instruction st1 f e1)
         \<lparr> getFileIR := skip_stamp_loop (getFileIR (stamp_instruction st1 f e1)) f
                           (getInstructions (func_at (getFileIR st) f)) \<rparr>)"
    by (simp add: cache_consistent_def skip_stamp_loop_eh)
  then show ?thesis
    by (simp add: eh_update_Inr [OF eh] eh_update_loop_cache_consistent)
next
  case False
  then show ?thesis
    using assms by (auto simp: stamp_function_def cache_consistent_def split: sum.splits bool.splits)
qed

lemma execute_loop_cache_consistent:
  "execute_loop cap st fs = Inr st' \<Longrightarrow> cache_consistent st \<Longrightarrow> cache_consistent st'"
proof (induction fs arbitrary: st)
  case Nil
  then show ?case by simp
next
  case (Cons f fs)
  then show ?case
    by (auto split: option.splits sum.splits if_splits dest: stamp_function_cache_consistent)
qed

end
